theory Spec2Isabelle
  imports Main "HOL-Library.Word" "HOL-Library.Sublist"
begin

section \<open>Strings of the server: UTF-16 code units\<close>

text \<open>
  The server is JavaScript: a string is a sequence of 16-bit code units, and the regular
  expressions of the source (none has the \<open>u\<close> flag) work on code units. A chunk is modelled
  after \<open>chunk.toString()\<close>, as the string the handlers see.
\<close>

type_synonym cu = "16 word"
type_synonym jsstring = "cu list"

definition js :: "string \<Rightarrow> jsstring" where
  "js = map (\<lambda>c. of_nat (of_char c))"

definition TAB :: cu where "TAB = 0x09"
definition LF :: cu where "LF = 0x0A"
definition CR :: cu where "CR = 0x0D"
definition LBRACE :: cu where "LBRACE = 0x7B"
definition QUOTE :: cu where "QUOTE = 0x22"

definition in_range :: "cu \<Rightarrow> cu \<Rightarrow> cu \<Rightarrow> bool" where
  "in_range lo hi c = (lo \<le> c \<and> c \<le> hi)"

definition is_space :: "cu \<Rightarrow> bool" where
  \<comment> \<open>WhiteSpace and LineTerminator of ECMAScript: the class s of a pattern, and what \<open>trim\<close> strips\<close>
  "is_space c = (c \<in> set [0x09, 0x0A, 0x0B, 0x0C, 0x0D, 0x20, 0xA0, 0x1680,
       0x2028, 0x2029, 0x202F, 0x205F, 0x3000, 0xFEFF] \<or> in_range 0x2000 0x200A c)"

definition is_word :: "cu \<Rightarrow> bool" where
  \<comment> \<open>the class w of a pattern: \<open>[A-Za-z0-9_]\<close>\<close>
  "is_word c = (in_range 0x41 0x5A c \<or> in_range 0x61 0x7A c \<or> in_range 0x30 0x39 c \<or> c = 0x5F)"

definition is_ctrl :: "cu \<Rightarrow> bool" where
  \<comment> \<open>the class of code units 0x00-0x08, 0x0B-0x0C and 0x0E-0x1F\<close>
  "is_ctrl c = (in_range 0x00 0x08 c \<or> in_range 0x0B 0x0C c \<or> in_range 0x0E 0x1F c)"

definition trim :: "jsstring \<Rightarrow> jsstring" where
  "trim s = rev (dropWhile is_space (rev (dropWhile is_space s)))"

fun split_on :: "cu \<Rightarrow> jsstring \<Rightarrow> jsstring list" where
  \<comment> \<open>\<open>s.split(sep)\<close> for a separator of one code unit: the empty string gives one empty line\<close>
  "split_on sep [] = [[]]"
| "split_on sep (x # t) =
     (if x = sep then [] # split_on sep t
      else (case split_on sep t of l # ls \<Rightarrow> (x # l) # ls | [] \<Rightarrow> [[x]]))"

definition endsWith :: "jsstring \<Rightarrow> jsstring \<Rightarrow> bool" where
  "endsWith s e = suffix e s"

section \<open>Regular expressions, as a backtracking matcher\<close>

text \<open>
  The abstract syntax of the patterns the source uses. \<open>rxm r b s\<close> lists, in the order a
  backtracking matcher tries them, the rests of \<open>s\<close> after each way \<open>r\<close> can match at the
  front of \<open>s\<close>; \<open>b\<close> says that \<open>s\<close> is the whole input (for \<open>^\<close>). A star is greedy, and an
  iteration that consumes nothing is rejected, as in ECMAScript's RepeatMatcher.
\<close>

datatype rx = Lit cu | Cls "cu \<Rightarrow> bool" | Eps | Bol | Eol | Seq rx rx | Alt rx rx | Star rx

primrec iter :: "nat \<Rightarrow> (jsstring \<Rightarrow> jsstring list) \<Rightarrow> jsstring \<Rightarrow> jsstring list" where
  "iter 0 f s = [s]"
| "iter (Suc n) f s =
     concat (map (\<lambda>s'. if length s' < length s then iter n f s' else []) (f s)) @ [s]"

primrec rxm :: "rx \<Rightarrow> bool \<Rightarrow> jsstring \<Rightarrow> jsstring list" where
  "rxm (Lit c) b s = (case s of [] \<Rightarrow> [] | x # t \<Rightarrow> if x = c then [t] else [])"
| "rxm (Cls p) b s = (case s of [] \<Rightarrow> [] | x # t \<Rightarrow> if p x then [t] else [])"
| "rxm Eps b s = [s]"
| "rxm Bol b s = (if b then [s] else [])"
| "rxm Eol b s = (if s = [] then [s] else [])"
| "rxm (Seq r1 r2) b s =
     concat (map (\<lambda>s'. rxm r2 (b \<and> length s' = length s) s') (rxm r1 b s))"
| "rxm (Alt r1 r2) b s = rxm r1 b s @ rxm r2 b s"
| "rxm (Star r) b s = iter (length s) (\<lambda>s'. rxm r (b \<and> length s' = length s) s') s"

primrec lits :: "jsstring \<Rightarrow> rx" where
  "lits [] = Eps"
| "lits (c # cs) = Seq (Lit c) (lits cs)"

definition Plus :: "rx \<Rightarrow> rx" where
  "Plus r = Seq r (Star r)"

definition Opt :: "rx \<Rightarrow> rx" where
  "Opt r = Alt r Eps"

fun search :: "rx \<Rightarrow> bool \<Rightarrow> jsstring \<Rightarrow> bool" where
  "search r b [] = (rxm r b [] \<noteq> [])"
| "search r b (x # t) = (rxm r b (x # t) \<noteq> [] \<or> search r False t)"

definition rx_test :: "rx \<Rightarrow> jsstring \<Rightarrow> bool" where
  \<comment> \<open>\<open>/r/.test(s)\<close>: some position of \<open>s\<close> starts a match\<close>
  "rx_test r s = search r True s"

text \<open>
  \<open>s.replace(/r/g, repl)\<close>, for a replacement text without \<open>$\<close>: left to right, the first
  match at the leftmost position is replaced and the scan goes on behind it; after an empty
  match the scan moves one code unit on.
\<close>

function replace_g :: "rx \<Rightarrow> jsstring \<Rightarrow> bool \<Rightarrow> jsstring \<Rightarrow> jsstring" where
  "replace_g r repl b [] = (if rxm r b [] = [] then [] else repl)"
| "replace_g r repl b (x # t) =
     (case rxm r b (x # t) of
        [] \<Rightarrow> x # replace_g r repl False t
      | s' # _ \<Rightarrow>
          if length s' < Suc (length t) then repl @ replace_g r repl False s'
          else repl @ x # replace_g r repl False t)"
  by pat_completeness auto
termination
  by (relation "measure (\<lambda>(r, repl, b, s). length s)") auto

definition replace_all :: "rx \<Rightarrow> jsstring \<Rightarrow> jsstring \<Rightarrow> jsstring" where
  "replace_all r repl s = replace_g r repl True s"

section \<open>The output sanitizer\<close>

definition rx_header :: rx where
  \<comment> \<open>the pattern anchored at the start: code unit 1, six code units 0, then any code unit\<close>
  "rx_header = Seq Bol (Seq (lits [1, 0, 0, 0, 0, 0, 0]) (Cls (in_range 0x0000 0xFFFF)))"

definition rx_crlf :: rx where
  "rx_crlf = lits [CR, LF]"

definition rx_cr :: rx where
  "rx_cr = Lit CR"

definition rx_ctrl :: rx where
  "rx_ctrl = Cls is_ctrl"

definition rx_config :: rx where
  \<open>rx_config = lits (js
     ''{"stream":true,"stdin":true,"stdout":true,"stderr":true,"hijack":true,"demux":true}'')\<close>

definition rx_key :: rx where
  \<comment> \<open>\<open>(stream|stdin|stdout|stderr|hijack|demux)\<close>\<close>
  "rx_key = Alt (lits (js ''stream'')) (Alt (lits (js ''stdin'')) (Alt (lits (js ''stdout''))
     (Alt (lits (js ''stderr'')) (Alt (lits (js ''hijack'')) (lits (js ''demux''))))))"

definition rx_bool :: rx where
  "rx_bool = Alt (lits (js ''true'')) (lits (js ''false''))"

definition rx_config_any :: rx where
  \<comment> \<open>an opening brace, a quoted key, a colon and a boolean, any number of further
     comma-separated pairs, a closing brace\<close>
  \<open>rx_config_any =
     Seq (Lit LBRACE) (Seq (lits (js ''"'')) (Seq rx_key (Seq (lits (js ''":'')) (Seq rx_bool
       (Seq (Star (Seq (lits (js '',"'')) (Seq rx_key (Seq (lits (js ''":'')) rx_bool))))
         (lits (js ''}'')))))))\<close>

definition cleanDockerOutput :: "jsstring \<Rightarrow> jsstring" where
  "cleanDockerOutput output =
     replace_all rx_config_any []
       (replace_all rx_config []
         (replace_all rx_ctrl []
           (replace_all rx_crlf [LF]
             (replace_all rx_header [] output))))"

definition cleanChunk :: "jsstring \<Rightarrow> jsstring" where
  \<comment> \<open>the three replacements both data handlers apply to a chunk\<close>
  "cleanChunk chunkStr =
     replace_all rx_config [] (replace_all rx_ctrl [] (replace_all rx_header [] chunkStr))"

definition cleanedOutput :: "jsstring \<Rightarrow> jsstring" where
  \<comment> \<open>the four replacements applied to the text of a response\<close>
  "cleanedOutput currentOutput =
     replace_all rx_config []
       (replace_all rx_ctrl []
         (replace_all rx_crlf [LF]
           (replace_all rx_header [] currentOutput)))"


fun every_cr_before_lf :: "jsstring \<Rightarrow> bool" where
  \<comment> \<open>a property of a text, not code: each carriage return is directly followed by a newline\<close>
  "every_cr_before_lf [] = True"
| "every_cr_before_lf [x] = (x \<noteq> CR)"
| "every_cr_before_lf (x # y # t) =
     (if x = CR then y = LF \<and> every_cr_before_lf (y # t) else every_cr_before_lf (y # t))"

fun crlf_to_lf :: "jsstring \<Rightarrow> jsstring" where
  \<comment> \<open>not code, the words of the specification: read from left to right, every carriage
     return with a newline directly behind it becomes that newline; all else stays\<close>
  "crlf_to_lf [] = []"
| "crlf_to_lf [x] = [x]"
| "crlf_to_lf (x # y # t) =
     (if x = CR \<and> y = LF then LF # crlf_to_lf t else x # crlf_to_lf (y # t))"

fun has_pair :: "cu \<Rightarrow> cu \<Rightarrow> jsstring \<Rightarrow> bool" where
  \<comment> \<open>a property of a text, not code: somewhere \<open>a\<close> stands directly before \<open>b\<close>\<close>
  "has_pair a b [] = False"
| "has_pair a b [x] = False"
| "has_pair a b (x # y # t) = ((x = a \<and> y = b) \<or> has_pair a b (y # t))"

section \<open>The input-wait heuristic\<close>

definition to_upper_ascii :: "cu \<Rightarrow> cu" where
  "to_upper_ascii c = (if in_range 0x61 0x7A c then c - 0x20 else c)"

definition ci_unit :: "cu \<Rightarrow> rx" where
  \<comment> \<open>one ASCII letter of a pattern with the flag i: without the flag u a code unit beyond
     ASCII never canonicalizes to an ASCII letter, so only the two ASCII cases match\<close>
  "ci_unit p = Cls (\<lambda>c. c < 0x80 \<and> to_upper_ascii c = to_upper_ascii p)"

primrec ci :: "jsstring \<Rightarrow> rx" where
  "ci [] = Eps"
| "ci (c # cs) = Seq (ci_unit c) (ci cs)"

definition rx_question :: rx where
  \<comment> \<open>one or more units of the classes w or s, a question mark, spaces up to the end\<close>
  "rx_question = Seq (Plus (Cls (\<lambda>c. is_word c \<or> is_space c)))
     (Seq (Lit 0x3F) (Seq (Star (Cls is_space)) Eol))"

definition rx_colon :: rx where
  "rx_colon = Seq (Plus (Cls (\<lambda>c. is_word c \<or> is_space c)))
     (Seq (Lit 0x3A) (Seq (Star (Cls is_space)) Eol))"

definition commonInputPatterns :: "rx list" where
  "commonInputPatterns = map (\<lambda>w. ci (js w))
     [''Enter'', ''Input'', ''Type'', ''Name'', ''ID'', ''Age'',
      ''Number'', ''Value'', ''choice'', ''select'', ''provide'',
      ''password'', ''username'', ''email'', ''address'', ''phone'',
      ''continue'', ''proceed'', ''option'', ''answer'', ''response'']"

definition rx_prompt_char :: rx where
  \<comment> \<open>one of the units 0x3E, 0x24, 0x3A, 0xBB, an optional space, the end\<close>
  "rx_prompt_char = Seq (Alt (Lit 0x3E) (Alt (Lit 0x24) (Alt (Lit 0x3A) (Lit 0xBB))))
     (Seq (Opt (Lit 0x20)) Eol)"

definition lastNonEmptyLine :: "jsstring list \<Rightarrow> jsstring" where
  \<comment> \<open>\<open>lines.filter(line => line.trim().length > 0).pop() || ''\<close>\<close>
  "lastNonEmptyLine lines =
     (case rev (filter (\<lambda>line. length (trim line) > 0) lines) of [] \<Rightarrow> [] | l # _ \<Rightarrow> l)"

definition wait_cleanOutput :: "jsstring \<Rightarrow> jsstring" where
  "wait_cleanOutput output = replace_all rx_header [] (replace_all rx_cr [] output)"

definition wait_lastLine :: "jsstring \<Rightarrow> jsstring" where
  "wait_lastLine output = lastNonEmptyLine (split_on LF (wait_cleanOutput output))"

definition hasInputKeyword :: "jsstring \<Rightarrow> bool" where
  "hasInputKeyword line = list_ex (\<lambda>pattern. rx_test pattern line) commonInputPatterns"

definition hasStalled :: "jsstring \<Rightarrow> bool" where
  "hasStalled output =
     (length (wait_lastLine output) > 0 \<and> \<not> endsWith (wait_cleanOutput output) [LF, LF])"

definition isShortOutput :: "jsstring \<Rightarrow> bool" where
  "isShortOutput output =
     (length (wait_cleanOutput output) < 100 \<and>
      length (split_on LF (wait_cleanOutput output)) \<le> 3)"

definition isWaitingForInput :: "jsstring \<Rightarrow> bool" where
  "isWaitingForInput output =
     (if output = [] then False
      else
        let line = wait_lastLine output;
            hasQuestionPrompt = rx_test rx_question line;
            hasColonPrompt = rx_test rx_colon line;
            endsWithPromptChar = rx_test rx_prompt_char line
        in hasQuestionPrompt \<or> hasColonPrompt \<or> hasInputKeyword line \<or> endsWithPromptChar \<or>
           (hasStalled output \<and> (isShortOutput output \<or> hasInputKeyword line)))"

text \<open>
  \<open>line.match(/(A)B/)\<close> for a pattern made of one group \<open>A\<close> and a rest \<open>B\<close>: the leftmost
  position with a match, and there the first end of \<open>A\<close>, in the matcher's order, behind
  which \<open>B\<close> matches; the result is the text of the group.
\<close>

definition capture_at :: "rx \<Rightarrow> rx \<Rightarrow> bool \<Rightarrow> jsstring \<Rightarrow> jsstring option" where
  "capture_at A B b s =
     (case filter (\<lambda>s'. rxm B (b \<and> length s' = length s) s' \<noteq> []) (rxm A b s) of
        [] \<Rightarrow> None
      | s' # _ \<Rightarrow> Some (take (length s - length s') s))"

fun match_group :: "rx \<Rightarrow> rx \<Rightarrow> bool \<Rightarrow> jsstring \<Rightarrow> jsstring option" where
  "match_group A B b [] = capture_at A B b []"
| "match_group A B b (x # t) =
     (case capture_at A B b (x # t) of
        Some g \<Rightarrow> Some g
      | None \<Rightarrow> match_group A B False t)"

definition rx_prompt_group :: rx where
  \<comment> \<open>one or more units other than 0x2E, 0x21, 0x3F, 0x3A, then 0x3F or 0x3A\<close>
  "rx_prompt_group = Seq (Plus (Cls (\<lambda>c. c \<notin> set [0x2E, 0x21, 0x3F, 0x3A])))
     (Cls (\<lambda>c. c \<in> set [0x3F, 0x3A]))"

definition rx_prompt_rest :: rx where
  "rx_prompt_rest = Seq (Star (Cls is_space)) Eol"

definition prompt_cleanOutput :: "jsstring \<Rightarrow> jsstring" where
  "prompt_cleanOutput output =
     replace_all rx_ctrl [] (replace_all rx_header [] (replace_all rx_cr [] output))"

definition prompt_lastLine :: "jsstring \<Rightarrow> jsstring" where
  "prompt_lastLine output = lastNonEmptyLine (split_on LF (prompt_cleanOutput output))"

definition extractInputPrompt :: "jsstring \<Rightarrow> jsstring" where
  "extractInputPrompt output =
     (if output = [] then []
      else
        let line = prompt_lastLine output
        in if length line > 50
           then (case match_group rx_prompt_group rx_prompt_rest True line of
                   Some promptMatch \<Rightarrow> trim promptMatch
                 | None \<Rightarrow> line)
           else line)"

section \<open>Sessions, the registry and the containers\<close>

text \<open>
  A session is the object stored in \<open>activeSessions\<close>. The registry is a JavaScript \<open>Map\<close>,
  which iterates in insertion order: an association list. The Docker daemon is outside the
  program: the state keeps which containers exist and which run, and the list of the calls
  the server has made, in order. A call that fails changes nothing in the daemon. A
  container runs from its start until the server stops or removes it; that a program
  ends by itself is not part of the model.
\<close>

type_synonym sid = nat
type_synonym cid = nat

record session =
  container :: "cid option"
  stream :: nat
  stdoutChunks :: "jsstring list"
  stderrChunks :: "jsstring list"
  createdAt :: int
  timeout :: nat

datatype call =
    WriteFile nat | Unlink nat
  | CreateContainer | Start cid | Attach cid | Stop cid | Remove cid
  | SetTimeout nat | ClearTimeout nat

record state =
  activeSessions :: "(sid \<times> session) list"
  calls :: "call list"
  existing :: "cid set"
  running :: "cid set"
  timers :: "nat set"

text \<open>How the daemon answers the calls of a teardown: each promise resolves or rejects.\<close>

record env =
  stop_ok :: "cid \<Rightarrow> bool"
  remove_ok :: "cid \<Rightarrow> bool"
  retry_remove_ok :: "cid \<Rightarrow> bool"

fun map_set :: "sid \<Rightarrow> session \<Rightarrow> (sid \<times> session) list \<Rightarrow> (sid \<times> session) list" where
  "map_set k v [] = [(k, v)]"
| "map_set k v ((k', v') # r) = (if k' = k then (k, v) # r else (k', v') # map_set k v r)"

definition map_delete :: "sid \<Rightarrow> (sid \<times> session) list \<Rightarrow> (sid \<times> session) list" where
  "map_delete k r = filter (\<lambda>(k', _). k' \<noteq> k) r"

definition removeForced :: "bool \<Rightarrow> cid \<Rightarrow> state \<Rightarrow> state" where
  \<comment> \<open>\<open>container.remove({ force: true })\<close> with its outcome\<close>
  "removeForced ok c st =
     (let st1 = st\<lparr>calls := calls st @ [Remove c]\<rparr>
      in if ok then st1\<lparr>existing := existing st1 - {c}, running := running st1 - {c}\<rparr>
         else st1)"

text \<open>
  The promise chain of \<open>cleanupSession\<close>, run to its end: \<open>stop()\<close>, then the forced
  remove; the handler of a rejection (of the stop, or of the remove behind it) tries the
  forced remove once and swallows its failure. The code issues only the \<open>stop()\<close> at once
  and the removes when the promise settles: the calls of one teardown come in the order
  of the model, but the removes of one session can come behind the stop of another. No
  statement below speaks of the order of calls of different sessions.
\<close>

definition stopAndRemove :: "env \<Rightarrow> cid \<Rightarrow> state \<Rightarrow> state" where
  "stopAndRemove e c st =
     (let st1 = st\<lparr>calls := calls st @ [Stop c]\<rparr>
      in if stop_ok e c
         then (let st2 = removeForced (remove_ok e c) c (st1\<lparr>running := running st1 - {c}\<rparr>)
               in if remove_ok e c then st2 else removeForced (retry_remove_ok e c) c st2)
         else removeForced (retry_remove_ok e c) c st1)"

definition cleanupSession :: "env \<Rightarrow> sid \<Rightarrow> state \<Rightarrow> state" where
  "cleanupSession e sessionId st =
     (case map_of (activeSessions st) sessionId of
        None \<Rightarrow> st
      | Some session \<Rightarrow>
          let st1 = st\<lparr>timers := timers st - {timeout session},
                       calls := calls st @ [ClearTimeout (timeout session)]\<rparr>;
              st2 = (case container session of
                       Some c \<Rightarrow> stopAndRemove e c st1
                     | None \<Rightarrow> st1)
          in st2\<lparr>activeSessions := map_delete sessionId (activeSessions st2)\<rparr>)"

definition lifetime :: int where
  "lifetime = 5 * 60 * 1000"

definition sweep_body :: "env \<Rightarrow> int \<Rightarrow> state \<Rightarrow> sid \<times> session \<Rightarrow> state" where
  \<comment> \<open>the body of the loop over the entries of the registry\<close>
  "sweep_body e now st = (\<lambda>(sessionId, session).
     if now - createdAt session > lifetime then cleanupSession e sessionId st else st)"

definition sweep :: "env \<Rightarrow> int \<Rightarrow> state \<Rightarrow> state" where
  \<comment> \<open>the periodic callback, at the time \<open>now\<close>; the only entry the body deletes is the one
     the loop is at, so the loop visits the entries the registry had at its start\<close>
  "sweep e now st = foldl (sweep_body e now) st (activeSessions st)"

definition removes :: "env \<Rightarrow> cid \<Rightarrow> call list" where
  \<comment> \<open>not code: the forced removes one teardown issues, for stating what it calls\<close>
  "removes e c = (if stop_ok e c \<and> \<not> remove_ok e c then [Remove c, Remove c] else [Remove c])"

section \<open>The data handlers\<close>

datatype stream_type = Stdout | Stderr | Untyped

definition sessionDataHandler ::
    "jsstring \<Rightarrow> stream_type \<Rightarrow> session \<times> jsstring \<Rightarrow> session \<times> jsstring" where
  \<comment> \<open>the handler installed when the session is created; the second component is the
     variable \<open>currentOutput\<close> of the request\<close>
  "sessionDataHandler chunk type = (\<lambda>(s, currentOutput).
     (case type of
        Stderr \<Rightarrow> (s\<lparr>stderrChunks := stderrChunks s @ [chunk]\<rparr>, currentOutput)
      | _ \<Rightarrow> (s\<lparr>stdoutChunks := stdoutChunks s @ [cleanChunk chunk]\<rparr>,
              currentOutput @ cleanChunk chunk)))"

datatype settlement = Resolved jsstring | Rejected jsstring

record waiter =
  w_output :: jsstring
  dataReceived :: bool
  quietTimer :: bool
  timeoutArmed :: bool
  subscribed :: bool
  settled :: "settlement option"

definition startWaiter :: waiter where
  "startWaiter = \<lparr>w_output = [], dataReceived = False, quietTimer = False,
     timeoutArmed = True, subscribed = True, settled = None\<rparr>"

definition cleanup :: "waiter \<Rightarrow> waiter" where
  "cleanup w = w\<lparr>timeoutArmed := False, quietTimer := False, subscribed := False\<rparr>"

definition settle :: "settlement \<Rightarrow> waiter \<Rightarrow> waiter" where
  \<comment> \<open>\<open>resolve\<close> and \<open>reject\<close>: only the first one settles the promise\<close>
  "settle r w = (case settled w of None \<Rightarrow> w\<lparr>settled := Some r\<rparr> | Some _ \<Rightarrow> w)"

definition dataHandler :: "jsstring \<Rightarrow> session \<times> waiter \<Rightarrow> session \<times> waiter" where
  \<comment> \<open>the handler \<open>waitForOutput\<close> subscribes to the same stream\<close>
  "dataHandler chunk = (\<lambda>(s, w).
     let output1 = w_output w @ cleanChunk chunk;
         s' = s\<lparr>stdoutChunks := stdoutChunks s @ [cleanChunk chunk]\<rparr>;
         output2 = (if output1 \<noteq> [] then cleanDockerOutput output1 else output1);
         w' = w\<lparr>w_output := output2, dataReceived := True, quietTimer := False\<rparr>
     in if isWaitingForInput output2
        then (s', settle (Resolved output2) (cleanup w'))
        else (s', w'\<lparr>quietTimer := True\<rparr>))"

definition emitData ::
    "jsstring \<Rightarrow> stream_type \<Rightarrow> session \<times> jsstring \<times> waiter option
       \<Rightarrow> session \<times> jsstring \<times> waiter option" where
  \<comment> \<open>one \<open>data\<close> event of the stream: every subscribed listener runs, in the order of
     subscription; \<open>None\<close> when no \<open>waitForOutput\<close> is under way\<close>
  "emitData chunk type = (\<lambda>(s, currentOutput, wo).
     let (s1, currentOutput1) = sessionDataHandler chunk type (s, currentOutput)
     in (case wo of
           None \<Rightarrow> (s1, currentOutput1, None)
         | Some w \<Rightarrow>
             if subscribed w
             then (let (s2, w2) = dataHandler chunk (s1, w) in (s2, currentOutput1, Some w2))
             else (s1, currentOutput1, Some w)))"

section \<open>The timeout of waitForOutput\<close>

datatype inspection = InspectRejects | Info bool int

fun digits :: "nat \<Rightarrow> jsstring" where
  "digits n = (if n < 10 then [of_nat (48 + n)] else digits (n div 10) @ [of_nat (48 + n mod 10)])"

definition show_int :: "int \<Rightarrow> jsstring" where
  "show_int i = (if i < 0 then 0x2D # digits (nat (- i)) else digits (nat i))"

definition msg_running :: jsstring where
  "msg_running = js (''Program is running but not producing output. '' @
     ''It may be performing a long calculation or waiting for more input.'')"

definition msg_no_output :: jsstring where
  "msg_no_output = js ''Program completed successfully but produced no output.''"

definition msg_exited :: "int \<Rightarrow> jsstring" where
  "msg_exited exitCode = js ''Program exited with code '' @ show_int exitCode"

definition msg_inspect_failed :: jsstring where
  "msg_inspect_failed = js ''Execution timed out and failed to check program status.''"

definition onTimeout :: "inspection \<Rightarrow> session \<Rightarrow> waiter \<Rightarrow> waiter" where
  \<comment> \<open>the callback of the timer of \<open>timeoutMs\<close>; the first argument is the answer of
     \<open>container.inspect()\<close>, asked only when the history is empty\<close>
  "onTimeout insp s w =
     (let existingOutput = concat (stdoutChunks s)
      in if existingOutput \<noteq> [] then settle (Resolved existingOutput) (cleanup w)
         else (case insp of
                 Info isRunning exitCode \<Rightarrow>
                   if isRunning then settle (Resolved msg_running) (cleanup w)
                   else if exitCode = 0 then settle (Resolved msg_no_output) (cleanup w)
                   else settle (Rejected (msg_exited exitCode)) (cleanup w)
               | InspectRejects \<Rightarrow> settle (Rejected msg_inspect_failed) (cleanup w)))"

definition msg_completed :: jsstring where
  "msg_completed = js ''Program completed.''"

definition msg_unknown :: jsstring where
  "msg_unknown = js ''Unable to determine program status.''"

definition onCheck :: "inspection \<Rightarrow> session \<Rightarrow> waiter \<Rightarrow> waiter" where
  \<comment> \<open>the callback of the timer of five seconds, which \<open>cleanup\<close> does not clear\<close>
  "onCheck insp s w =
     (if \<not> dataReceived w
      then (case insp of
              Info isRunning exitCode \<Rightarrow>
                if \<not> isRunning \<and> exitCode = 0
                then (let existingOutput = concat (stdoutChunks s)
                      in settle (Resolved (if existingOutput \<noteq> [] then existingOutput
                                           else msg_completed)) (cleanup w))
                else (let priorOutput = concat (stdoutChunks s)
                      in if isWaitingForInput priorOutput
                         then settle (Resolved priorOutput) (cleanup w)
                         else w)
            | InspectRejects \<Rightarrow> settle (Resolved msg_unknown) (cleanup w))
      else w)"

text \<open>
  The timer of the silence of 500 ms and the handler of a stream error settle the promise
  on their own paths; no property below depends on them.
\<close>

section \<open>A new run\<close>

text \<open>
  The part of the handler of \<open>POST /api/execute\<close> that starts a new session (the request has
  no \<open>sessionId\<close>). What the outside world answers during the request is a parameter: the
  fresh identifiers, the outcome of writing the file and of the three Docker calls, the clock,
  and the \<open>data\<close> events that arrive during the wait of one second. The registry holds a
  reference to the session object, whose arrays the data handler fills: the entry of the
  model is the session as it is at the end of the wait.
\<close>

datatype 'a answer = Fails jsstring | Returns 'a

record run_env =
  fileId :: nat
  newSessionId :: sid
  write_ok :: bool
  created :: "cid answer"
  started :: "unit answer"
  attached :: "nat answer"
  timer :: nat
  clock :: int
  arrivals :: "(jsstring \<times> stream_type) list"

datatype response =
    Reply jsstring sid bool jsstring
  | ErrorReply nat jsstring

definition failRun :: "env \<Rightarrow> run_env \<Rightarrow> jsstring \<Rightarrow> state \<Rightarrow> response \<times> state" where
  \<comment> \<open>the \<open>catch\<close> block around the Docker calls\<close>
  "failRun e r message st =
     (let st1 = cleanupSession e (newSessionId r) st;
          st2 = st1\<lparr>calls := calls st1 @ [Unlink (fileId r)]\<rparr>
      in (ErrorReply 200
            (if message = [] then js ''An error occurred during execution'' else message),
          st2))"

definition execute_new ::
    "env \<Rightarrow> run_env \<Rightarrow> jsstring \<Rightarrow> jsstring \<Rightarrow> state \<Rightarrow> response \<times> state" where
  "execute_new e r code language st =
     (if code = [] then (ErrorReply 400 (js ''No code provided''), st)
      else if language \<noteq> js ''python''
      then (ErrorReply 400 (js ''Unsupported language. Currently only Python is supported.''), st)
      else
        let st0 = st\<lparr>calls := calls st @ [WriteFile (fileId r)]\<rparr>
        in if \<not> write_ok r then (ErrorReply 500 (js ''Failed to save code to file''), st0)
           else
             let st1 = st0\<lparr>calls := calls st0 @ [CreateContainer]\<rparr>
             in (case created r of
                   Fails m \<Rightarrow> failRun e r m st1
                 | Returns c \<Rightarrow>
                     let st2 = st1\<lparr>existing := insert c (existing st1),
                                   calls := calls st1 @ [Start c]\<rparr>
                     in (case started r of
                           Fails m \<Rightarrow> failRun e r m st2
                         | Returns _ \<Rightarrow>
                             let st3 = st2\<lparr>running := insert c (running st2),
                                           calls := calls st2 @ [Attach c]\<rparr>
                             in (case attached r of
                                   Fails m \<Rightarrow> failRun e r m st3
                                 | Returns strm \<Rightarrow>
                                     let session0 = \<lparr>container = Some c, stream = strm,
                                           stdoutChunks = [], stderrChunks = [],
                                           createdAt = clock r, timeout = timer r\<rparr>;
                                         (session1, currentOutput) =
                                           foldl (\<lambda>acc (chunk, type).
                                                    sessionDataHandler chunk type acc)
                                             (session0, []) (arrivals r);
                                         st4 = st3\<lparr>timers := insert (timer r) (timers st3),
                                           calls := calls st3 @ [SetTimeout (timer r)],
                                           activeSessions :=
                                             map_set (newSessionId r) session1
                                               (activeSessions st3)\<rparr>;
                                         waitingForInput = isWaitingForInput currentOutput;
                                         inputPrompt =
                                           (if waitingForInput
                                            then extractInputPrompt currentOutput else [])
                                     in (Reply (cleanedOutput currentOutput) (newSessionId r)
                                           waitingForInput inputPrompt, st4)))))"

section \<open>Concrete scenarios\<close>

definition state0 :: state where
  "state0 = \<lparr>activeSessions = [], calls = [], existing = {}, running = {}, timers = {}\<rparr>"

definition docker_up :: env where
  "docker_up = \<lparr>stop_ok = (\<lambda>_. True), remove_ok = (\<lambda>_. True), retry_remove_ok = (\<lambda>_. True)\<rparr>"

definition docker_down :: env where
  "docker_down =
     \<lparr>stop_ok = (\<lambda>_. False), remove_ok = (\<lambda>_. False), retry_remove_ok = (\<lambda>_. False)\<rparr>"

definition remove_rejected :: env where
  \<comment> \<open>the daemon accepts the stop, rejects the remove behind it and accepts the retry\<close>
  "remove_rejected =
     \<lparr>stop_ok = (\<lambda>_. True), remove_ok = (\<lambda>_. False), retry_remove_ok = (\<lambda>_. True)\<rparr>"

definition run_hi :: run_env where
  \<comment> \<open>every call succeeds and the program prints one line, \<open>hi\<close>, on stdout\<close>
  "run_hi = \<lparr>fileId = 1, newSessionId = 1, write_ok = True, created = Returns 7,
     started = Returns (), attached = Returns 1, timer = 1, clock = 0,
     arrivals = [(js ''hi'' @ [LF], Stdout)]\<rparr>"

definition run_hi_framed :: run_env where
  \<comment> \<open>the same run over a stream that is not demultiplexed: the chunk carries the frame
     header (stream 1, length 3) and comes without a type\<close>
  "run_hi_framed =
     run_hi\<lparr>arrivals := [([1, 0, 0, 0, 0, 0, 0, 3] @ js ''hi'' @ [LF], Untyped)]\<rparr>"

definition run_attach_fails :: run_env where
  "run_attach_fails = run_hi\<lparr>attached := Fails (js ''attach failed''), arrivals := []\<rparr>"

definition run_create_fails :: run_env where
  "run_create_fails = run_hi\<lparr>created := Fails (js ''no such image''), arrivals := []\<rparr>"

definition session7 :: session where
  "session7 = \<lparr>container = Some 7, stream = 1, stdoutChunks = [], stderrChunks = [],
     createdAt = 0, timeout = 1\<rparr>"

definition state7 :: state where
  \<comment> \<open>one session, created at time 0, whose container 7 runs\<close>
  "state7 = \<lparr>activeSessions = [(1, session7)], calls = [], existing = {7}, running = {7},
     timers = {1}\<rparr>"

definition framed_hi :: jsstring where
  \<comment> \<open>a frame header of eight units, \<open>hi\<close>, a CRLF and a bell\<close>
  "framed_hi = [1, 0, 0, 0, 0, 0, 0, 3] @ js ''hi'' @ [CR, LF, 7]"

definition crlf_text :: jsstring where
  \<comment> \<open>two lines with a CRLF between them, and a bell\<close>
  "crlf_text = js ''a'' @ [CR, LF] @ js ''b'' @ [7]"

definition braces_cr :: jsstring where
  \<comment> \<open>braces without a quote behind them, and carriage returns without a newline\<close>
  "braces_cr = js ''{1: 2} 10%'' @ [CR] @ js ''20%'' @ [CR] @ js ''done'' @ [LF]"

definition nested_config :: jsstring where
  \<comment> \<open>a configuration fragment inside the key of another one\<close>
  \<open>nested_config = js ''{"str{"stdin":true}eam":true}''\<close>

definition print_hi :: jsstring where
  \<open>print_hi = js ''print("hi")''\<close>

definition blank_output :: jsstring where
  "blank_output = [0x20, LF, TAB, CR, LF]"

definition prompt_a :: jsstring where
  "prompt_a = js ''Name? ''"

definition prompt_b :: jsstring where
  "prompt_b = js ''x'' @ [LF] @ js ''Name? ''"

definition long_hi :: jsstring where
  \<comment> \<open>a line of a hundred letters x, then the line \<open>hi\<close>\<close>
  "long_hi = replicate 100 0x78 @ [LF] @ js ''hi''"

definition session_ok :: session where
  \<comment> \<open>a session whose history holds the line \<open>ok\<close> and a blank line of an earlier turn\<close>
  "session_ok = session7\<lparr>stdoutChunks := [js ''ok'' @ [LF, LF]]\<rparr>"

section \<open>Facts about the matcher\<close>

lemma iter_suffix:
  assumes "\<And>u u'. u' \<in> set (f u) \<Longrightarrow> suffix u' u"
  shows "s' \<in> set (iter n f s) \<Longrightarrow> suffix s' s"
proof (induction n arbitrary: s)
  case 0
  then show ?case by simp
next
  case (Suc n)
  from Suc.prems consider "s' = s"
    | u where "u \<in> set (f s)" "length u < length s" "s' \<in> set (iter n f u)"
    by (auto split: if_splits)
  then show ?case
  proof cases
    case 1
    then show ?thesis by simp
  next
    case 2
    from Suc.IH [OF 2(3)] assms [OF 2(1)] show ?thesis
      by (rule suffix_order.trans)
  qed
qed

lemma rxm_suffix: "s' \<in> set (rxm r b s) \<Longrightarrow> suffix s' s"
proof (induction r arbitrary: b s s')
  case (Seq r1 r2)
  from Seq.prems obtain u where "u \<in> set (rxm r1 b s)"
    and "s' \<in> set (rxm r2 (b \<and> length u = length s) u)"
    by auto
  then show ?case
    using Seq.IH suffix_order.trans by blast
next
  case (Star r)
  have "s' \<in> set (iter (length s) (\<lambda>u. rxm r (b \<and> length u = length s) u) s)"
    using Star.prems by simp
  then show ?case
    by (rule iter_suffix [rotated]) (rule Star.IH)
qed (auto split: list.splits if_splits simp: suffix_Cons)

lemma rxm_hd_suffix: "rxm r b s = s' # rest \<Longrightarrow> suffix s' s"
  by (rule rxm_suffix [of s' r b s]) simp

lemma set_replace_g: "set (replace_g r repl b s) \<subseteq> set s \<union> set repl"
proof (induction r repl b s rule: replace_g.induct)
  case (1 r repl b)
  then show ?case by simp
next
  case (2 r repl b x t)
  show ?case
  proof (cases "rxm r b (x # t)")
    case Nil
    with 2 show ?thesis by auto
  next
    case (Cons s' rest)
    then have "set s' \<subseteq> set (x # t)"
      using rxm_hd_suffix set_mono_suffix by blast
    with 2 Cons show ?thesis by (cases "length s' < Suc (length t)") auto
  qed
qed

lemma set_replace_all_empty: "set (replace_all r [] s) \<subseteq> set s"
  using set_replace_g [of r "[]" True s] by (simp add: replace_all_def)

lemma replace_g_id:
  assumes "\<And>b x t. x \<in> set s \<Longrightarrow> rxm r b (x # t) = []" and "\<And>b. rxm r b [] = []"
  shows "replace_g r repl b s = s"
  using assms by (induction s arbitrary: b) auto

lemma replace_g_Cls: "replace_g (Cls p) [] b s = filter (\<lambda>c. \<not> p c) s"
  by (induction s arbitrary: b) auto

lemma replace_g_Bol_False: "replace_g (Seq Bol r) repl False s = s"
  by (induction s) auto

lemma replace_g_Bol_suffix: "suffix (replace_g (Seq Bol r) [] b s) s"
proof (cases s)
  case Nil
  then show ?thesis by simp
next
  case (Cons x t)
  show ?thesis
  proof (cases "rxm (Seq Bol r) b (x # t)")
    case Nil
    with Cons show ?thesis by (simp add: replace_g_Bol_False)
  next
    case (Cons s' rest)
    then have "suffix s' (x # t)" by (rule rxm_hd_suffix)
    with Cons \<open>s = x # t\<close> show ?thesis
      by (simp add: replace_g_Bol_False)
  qed
qed

section \<open>The sanitizer: what it removes\<close>

lemma every_cr_before_lf_tl: "every_cr_before_lf (x # t) \<Longrightarrow> every_cr_before_lf t"
  by (cases t) (auto split: if_splits)

lemma every_cr_before_lf_suffix:
  "suffix u s \<Longrightarrow> every_cr_before_lf s \<Longrightarrow> every_cr_before_lf u"
proof (induction s)
  case Nil
  then show ?case by simp
next
  case (Cons x s)
  then show ?case
    by (auto simp: suffix_Cons dest: every_cr_before_lf_tl)
qed

lemma replace_crlf_no_cr:
  "every_cr_before_lf s \<Longrightarrow> CR \<notin> set (replace_g rx_crlf [LF] b s)"
proof (induction "length s" arbitrary: s b rule: less_induct)
  case less
  show ?case
  proof (cases s)
    case Nil
    then show ?thesis by (simp add: rx_crlf_def)
  next
    case (Cons x t)
    note s = Cons
    show ?thesis
    proof (cases t)
      case Nil
      with s less.prems show ?thesis by (simp add: rx_crlf_def)
    next
      case (Cons y t')
      have pt: "every_cr_before_lf t"
        using less.prems s by (auto dest: every_cr_before_lf_tl)
      then have pt': "every_cr_before_lf t'"
        using Cons by (auto dest: every_cr_before_lf_tl)
      have t: "CR \<notin> set (replace_g rx_crlf [LF] False t)"
        using less.hyps [of t False] pt s by simp
      have t': "CR \<notin> set (replace_g rx_crlf [LF] False t')"
        using less.hyps [of t' False] pt' s Cons by simp
      show ?thesis
        using t t' s Cons less.prems
        by (auto simp: rx_crlf_def LF_def CR_def split: if_splits)
    qed
  qed
qed

lemma not_ctrl_cleanDockerOutput: "c \<in> set (cleanDockerOutput x) \<Longrightarrow> \<not> is_ctrl c"
proof -
  assume "c \<in> set (cleanDockerOutput x)"
  then have "c \<in> set (replace_all rx_ctrl []
      (replace_all rx_crlf [LF] (replace_all rx_header [] x)))"
    unfolding cleanDockerOutput_def
    using set_replace_all_empty [of rx_config_any] set_replace_all_empty [of rx_config]
    by blast
  then show ?thesis
    by (simp add: replace_all_def rx_ctrl_def replace_g_Cls)
qed

lemma no_cr_cleanDockerOutput:
  assumes "every_cr_before_lf x"
  shows "CR \<notin> set (cleanDockerOutput x)"
proof -
  have "every_cr_before_lf (replace_all rx_header [] x)"
    unfolding replace_all_def rx_header_def
    using replace_g_Bol_suffix assms by (rule every_cr_before_lf_suffix)
  then have "CR \<notin> set (replace_all rx_crlf [LF] (replace_all rx_header [] x))"
    unfolding replace_all_def by (rule replace_crlf_no_cr)
  then have "CR \<notin> set (replace_all rx_ctrl []
      (replace_all rx_crlf [LF] (replace_all rx_header [] x)))"
    by (simp add: replace_all_def rx_ctrl_def replace_g_Cls)
  then show ?thesis
    unfolding cleanDockerOutput_def
    using set_replace_all_empty [of rx_config_any] set_replace_all_empty [of rx_config]
    by blast
qed

lemma cleanDockerOutput_fixed:
  assumes ctrl: "\<And>c. c \<in> set y \<Longrightarrow> \<not> is_ctrl c"
    and cr: "CR \<notin> set y" and br: "LBRACE \<notin> set y"
  shows "cleanDockerOutput y = y"
proof -
  have one: "1 \<notin> set y"
    using ctrl [of 1] by (auto simp: is_ctrl_def in_range_def)
  have h: "replace_all rx_header [] y = y"
    unfolding replace_all_def rx_header_def
    using one by (intro replace_g_id) auto
  have c: "replace_all rx_crlf [LF] y = y"
    unfolding replace_all_def rx_crlf_def
    using cr by (intro replace_g_id) auto
  have k: "replace_all rx_ctrl [] y = y"
    unfolding replace_all_def rx_ctrl_def replace_g_Cls
    using ctrl by (simp add: filter_id_conv)
  have g: "replace_all rx_config [] y = y"
    unfolding replace_all_def rx_config_def
    using br by (intro replace_g_id) (auto simp: js_def LBRACE_def)
  have a: "replace_all rx_config_any [] y = y"
    unfolding replace_all_def rx_config_any_def
    using br by (intro replace_g_id) auto
  show ?thesis
    by (simp add: cleanDockerOutput_def h c k g a)
qed

lemma replace_crlf_eq: "replace_g rx_crlf [LF] b s = crlf_to_lf s"
proof (induction s arbitrary: b rule: crlf_to_lf.induct)
  case 1
  then show ?case by (simp add: rx_crlf_def)
next
  case (2 x)
  then show ?case by (simp add: rx_crlf_def)
next
  case (3 x y t)
  show ?case
  proof (cases "x = CR \<and> y = LF")
    case True
    with 3(1) [of False] show ?thesis by (simp add: rx_crlf_def)
  next
    case False
    with 3(2) [of False] show ?thesis by (auto simp: rx_crlf_def)
  qed
qed

lemma replace_header_none: "take 1 x \<noteq> [1] \<Longrightarrow> replace_all rx_header [] x = x"
proof (cases x)
  case Nil
  then show ?thesis by (simp add: replace_all_def rx_header_def)
next
  case (Cons a t)
  assume "take 1 x \<noteq> [1]"
  with Cons have "a \<noteq> 1" by simp
  with Cons show ?thesis
    by (simp add: replace_all_def rx_header_def replace_g_Bol_False)
qed

lemma cleanDockerOutput_passes:
  "cleanDockerOutput x =
     replace_all rx_config_any [] (replace_all rx_config []
       (filter (\<lambda>c. \<not> is_ctrl c) (crlf_to_lf (replace_all rx_header [] x))))"
proof -
  have c: "replace_all rx_crlf [LF] s = crlf_to_lf s" for s
    by (simp add: replace_all_def replace_crlf_eq)
  have k: "replace_all rx_ctrl [] s = filter (\<lambda>c. \<not> is_ctrl c) s" for s
    by (simp add: replace_all_def rx_ctrl_def replace_g_Cls)
  show ?thesis
    by (simp only: cleanDockerOutput_def c k)
qed

lemma set_crlf_to_lf: "set (crlf_to_lf s) \<subseteq> set s"
  by (induction s rule: crlf_to_lf.induct) auto

lemma cleanDockerOutput_plain:
  assumes "take 1 x \<noteq> [1]" and "LBRACE \<notin> set x"
  shows "cleanDockerOutput x = filter (\<lambda>c. \<not> is_ctrl c) (crlf_to_lf x)"
proof -
  let ?y = "filter (\<lambda>c. \<not> is_ctrl c) (crlf_to_lf x)"
  have br: "LBRACE \<notin> set ?y" using assms(2) set_crlf_to_lf [of x] by auto
  have g: "replace_all rx_config [] ?y = ?y"
    unfolding replace_all_def rx_config_def
    using br by (intro replace_g_id) (auto simp: js_def LBRACE_def)
  have a: "replace_all rx_config_any [] ?y = ?y"
    unfolding replace_all_def rx_config_any_def
    using br by (intro replace_g_id) auto
  show ?thesis
    by (simp add: cleanDockerOutput_passes replace_header_none [OF assms(1)] g a)
qed

lemma replace_g_no_match:
  "(\<And>b u. suffix u s \<Longrightarrow> rxm r b u = []) \<Longrightarrow> replace_g r repl b s = s"
proof (induction s arbitrary: b)
  case Nil
  then show ?case by simp
next
  case (Cons x t)
  have "rxm r b (x # t) = []" using Cons.prems by simp
  moreover have "replace_g r repl False t = t"
    using Cons.prems by (intro Cons.IH) (simp add: suffix_ConsI)
  ultimately show ?case by simp
qed

lemma has_pair_Cons: "has_pair a b s \<Longrightarrow> has_pair a b (x # s)"
  by (cases s) auto

lemma has_pair_suffix: "suffix u s \<Longrightarrow> has_pair a b u \<Longrightarrow> has_pair a b s"
  by (induction s) (auto simp: suffix_Cons has_pair_Cons)

lemma rxm_two_lits: "rxm (Seq (Lit a) (Seq (Lit b) r)) f u \<noteq> [] \<Longrightarrow> has_pair a b u"
proof (cases u)
  case Nil
  assume "rxm (Seq (Lit a) (Seq (Lit b) r)) f u \<noteq> []"
  with Nil show ?thesis by simp
next
  case (Cons x t)
  assume m: "rxm (Seq (Lit a) (Seq (Lit b) r)) f u \<noteq> []"
  show ?thesis
  proof (cases t)
    case Nil
    with Cons m show ?thesis by (simp split: if_splits)
  next
    case (Cons y t')
    with \<open>u = x # t\<close> m show ?thesis by (simp split: if_splits)
  qed
qed

lemma rx_crlf_shape: "rx_crlf = Seq (Lit CR) (Seq (Lit LF) Eps)"
  by (simp add: rx_crlf_def)

lemma rx_config_shape: "\<exists>r. rx_config = Seq (Lit LBRACE) (Seq (Lit QUOTE) r)"
  by (simp add: rx_config_def js_def LBRACE_def QUOTE_def)

lemma rxm_config_any: "rxm rx_config_any f u \<noteq> [] \<Longrightarrow> has_pair LBRACE QUOTE u"
proof -
  assume m: "rxm rx_config_any f u \<noteq> []"
  obtain r where r: "rx_config_any = Seq (Lit LBRACE) (Seq (Seq (Lit QUOTE) Eps) r)"
    by (simp add: rx_config_any_def js_def QUOTE_def)
  note m' = m [unfolded r]
  show ?thesis
  proof (cases u)
    case Nil
    with m' show ?thesis by simp
  next
    case (Cons x t)
    note u = Cons
    show ?thesis
    proof (cases t)
      case Nil
      with u m' show ?thesis by (simp split: if_splits)
    next
      case (Cons y t')
      with u m' show ?thesis by (simp split: if_splits)
    qed
  qed
qed

lemma cleanDockerOutput_fixed_pairs:
  assumes ctrl: "\<And>c. c \<in> set y \<Longrightarrow> \<not> is_ctrl c"
    and cr: "\<not> has_pair CR LF y" and br: "\<not> has_pair LBRACE QUOTE y"
  shows "cleanDockerOutput y = y"
proof -
  have one: "1 \<notin> set y"
    using ctrl [of 1] by (auto simp: is_ctrl_def in_range_def)
  have h: "replace_all rx_header [] y = y"
    unfolding replace_all_def rx_header_def
    using one by (intro replace_g_id) auto
  have c: "replace_all rx_crlf [LF] y = y"
    unfolding replace_all_def
  proof (rule replace_g_no_match, rule ccontr)
    fix b u assume s: "suffix u y" and m: "rxm rx_crlf b u \<noteq> []"
    from m [unfolded rx_crlf_shape] have "has_pair CR LF u" by (rule rxm_two_lits)
    with s have "has_pair CR LF y" by (rule has_pair_suffix)
    with cr show False by simp
  qed
  have k: "replace_all rx_ctrl [] y = y"
    unfolding replace_all_def rx_ctrl_def replace_g_Cls
    using ctrl by (simp add: filter_id_conv)
  have g: "replace_all rx_config [] y = y"
    unfolding replace_all_def
  proof (rule replace_g_no_match, rule ccontr)
    fix b u assume s: "suffix u y" and m: "rxm rx_config b u \<noteq> []"
    obtain r where r: "rx_config = Seq (Lit LBRACE) (Seq (Lit QUOTE) r)"
      using rx_config_shape by blast
    from m [unfolded r] have "has_pair LBRACE QUOTE u" by (rule rxm_two_lits)
    with s br show False using has_pair_suffix by blast
  qed
  have a: "replace_all rx_config_any [] y = y"
    unfolding replace_all_def
  proof (rule replace_g_no_match, rule ccontr)
    fix b u assume s: "suffix u y" and m: "rxm rx_config_any b u \<noteq> []"
    then have "has_pair LBRACE QUOTE u" using rxm_config_any by blast
    with s br show False using has_pair_suffix by blast
  qed
  show ?thesis
    by (simp add: cleanDockerOutput_def h c k g a)
qed

lemma cleanDockerOutput_framed_hi: "cleanDockerOutput framed_hi = js ''hi'' @ [LF]"
  by code_simp

lemma cleanDockerOutput_braces_cr: "cleanDockerOutput braces_cr = braces_cr"
  by code_simp

text \<open>
  Claim C6, as the code has it. The sanitizer's result holds no code unit of the class it
  deletes (0x00-0x08, 0x0B, 0x0C, 0x0E-0x1F); carriage return and DEL are outside that
  class. The CRLF pairs are replaced in one pass from left to right over the text behind
  the frame header: that pass is \<open>crlf_to_lf\<close>, every carriage return with a newline
  directly behind it becomes that newline and nothing else changes. For a text without a
  frame header and without an opening brace the whole result is the text with its CRLF
  pairs made LF and the deleted class filtered out. A carriage return is gone from the
  result when every carriage return of the input is directly followed by a newline.
\<close>

theorem cleanDockerOutput_controls:
  "(\<forall>c \<in> set (cleanDockerOutput x). \<not> is_ctrl c) \<and>
   (every_cr_before_lf x \<longrightarrow> CR \<notin> set (cleanDockerOutput x)) \<and>
   cleanDockerOutput x =
     replace_all rx_config_any [] (replace_all rx_config []
       (filter (\<lambda>c. \<not> is_ctrl c) (crlf_to_lf (replace_all rx_header [] x)))) \<and>
   (take 1 x \<noteq> [1] \<and> LBRACE \<notin> set x \<longrightarrow>
      cleanDockerOutput x = filter (\<lambda>c. \<not> is_ctrl c) (crlf_to_lf x))"
  using not_ctrl_cleanDockerOutput no_cr_cleanDockerOutput cleanDockerOutput_passes
    cleanDockerOutput_plain by blast

theorem cleanDockerOutput_controls_witness:
  "every_cr_before_lf framed_hi \<and> 0x68 \<in> set (cleanDockerOutput framed_hi) \<and>
   \<not> is_ctrl 0x68 \<and> CR \<notin> set (cleanDockerOutput framed_hi) \<and>
   take 1 crlf_text \<noteq> [1] \<and> LBRACE \<notin> set crlf_text \<and>
   cleanDockerOutput crlf_text = js ''a'' @ [LF] @ js ''b''"
proof -
  have h: "every_cr_before_lf framed_hi" by code_simp
  have m: "0x68 \<in> set (cleanDockerOutput framed_hi)"
    by (simp add: cleanDockerOutput_framed_hi js_def)
  from cleanDockerOutput_controls [of framed_hi] h m
  have 1: "\<not> is_ctrl 0x68 \<and> CR \<notin> set (cleanDockerOutput framed_hi)" by blast
  have t: "take 1 crlf_text \<noteq> [1]" by (simp add: crlf_text_def js_def)
  have b: "LBRACE \<notin> set crlf_text" by (simp add: crlf_text_def js_def LBRACE_def CR_def LF_def)
  have e: "filter (\<lambda>c. \<not> is_ctrl c) (crlf_to_lf crlf_text) = js ''a'' @ [LF] @ js ''b''"
    by code_simp
  from cleanDockerOutput_controls [of crlf_text] t b
  have "cleanDockerOutput crlf_text = filter (\<lambda>c. \<not> is_ctrl c) (crlf_to_lf crlf_text)"
    by blast
  with e have 2: "cleanDockerOutput crlf_text = js ''a'' @ [LF] @ js ''b''" by simp
  from h m 1 t b 2 show ?thesis by blast
qed

text \<open>
  Claim C6 as stated fails: a carriage return that no newline follows survives; of two
  carriage returns before a newline one survives, next to the newline; DEL survives.
\<close>

theorem cleanDockerOutput_keeps_cr:
  "cleanDockerOutput [CR] = [CR] \<and> cleanDockerOutput [CR, CR, LF] = [CR, LF] \<and>
   cleanDockerOutput [0x7F] = [0x7F]"
  by code_simp

text \<open>
  Claim C7, as the code has it. A second pass changes nothing when the result of the first
  pass holds no carriage return directly before a newline and no opening brace directly
  before a double quote: then no pattern of the sanitizer has a place to match. Single
  carriage returns and braces in the result do no harm.
\<close>

theorem cleanDockerOutput_twice:
  "\<not> has_pair CR LF (cleanDockerOutput x) \<Longrightarrow>
   \<not> has_pair LBRACE QUOTE (cleanDockerOutput x) \<Longrightarrow>
   cleanDockerOutput (cleanDockerOutput x) = cleanDockerOutput x"
  by (rule cleanDockerOutput_fixed_pairs) (auto dest: not_ctrl_cleanDockerOutput)

theorem cleanDockerOutput_twice_witness:
  "\<not> has_pair CR LF (cleanDockerOutput braces_cr) \<and>
   \<not> has_pair LBRACE QUOTE (cleanDockerOutput braces_cr) \<and>
   CR \<in> set (cleanDockerOutput braces_cr) \<and> LBRACE \<in> set (cleanDockerOutput braces_cr) \<and>
   cleanDockerOutput (cleanDockerOutput braces_cr) = cleanDockerOutput braces_cr"
proof -
  have c: "\<not> has_pair CR LF (cleanDockerOutput braces_cr)"
    unfolding cleanDockerOutput_braces_cr by code_simp
  have b: "\<not> has_pair LBRACE QUOTE (cleanDockerOutput braces_cr)"
    unfolding cleanDockerOutput_braces_cr by code_simp
  have m: "CR \<in> set (cleanDockerOutput braces_cr)"
    "LBRACE \<in> set (cleanDockerOutput braces_cr)"
    unfolding cleanDockerOutput_braces_cr by code_simp+
  from cleanDockerOutput_twice [OF c b] c b m show ?thesis by simp
qed

text \<open>
  Claim C7 as stated fails. The first pass turns CR CR LF into CR LF, and the second pass
  turns that into LF. The first pass takes the inner fragment out of a nested
  configuration fragment and leaves a whole one, which the second pass removes.
\<close>

theorem cleanDockerOutput_not_idempotent:
  "cleanDockerOutput (cleanDockerOutput [CR, CR, LF]) \<noteq> cleanDockerOutput [CR, CR, LF] \<and>
   cleanDockerOutput (cleanDockerOutput nested_config) \<noteq> cleanDockerOutput nested_config"
  by code_simp

section \<open>The heuristic: lines and blank text\<close>

lemma trim_empty_iff: "trim l = [] \<longleftrightarrow> (\<forall>c \<in> set l. is_space c)"
proof
  assume "trim l = []"
  then have "dropWhile is_space (rev (dropWhile is_space l)) = []"
    by (simp add: trim_def)
  then have "\<forall>c \<in> set (rev (dropWhile is_space l)). is_space c"
    using dropWhile_eq_Nil_conv [of is_space "rev (dropWhile is_space l)"] by blast
  then have a: "\<forall>c \<in> set (dropWhile is_space l). is_space c"
    unfolding set_rev .
  have "dropWhile is_space l = []"
  proof (rule ccontr)
    assume n: "dropWhile is_space l \<noteq> []"
    then have "\<not> is_space (hd (dropWhile is_space l))" by (rule hd_dropWhile)
    moreover have "hd (dropWhile is_space l) \<in> set (dropWhile is_space l)"
      using n by simp
    ultimately show False using a by blast
  qed
  then show "\<forall>c \<in> set l. is_space c"
    using dropWhile_eq_Nil_conv [of is_space l] by blast
next
  assume "\<forall>c \<in> set l. is_space c"
  then have "dropWhile is_space l = []"
    using dropWhile_eq_Nil_conv [of is_space l] by blast
  then show "trim l = []"
    unfolding trim_def by (simp only: rev.simps dropWhile.simps)
qed

lemma split_on_not_Nil: "split_on sep s \<noteq> []"
  by (induction s) (auto split: list.splits)

lemma split_on_line_subset: "l \<in> set (split_on sep s) \<Longrightarrow> set l \<subseteq> set s"
proof (induction s arbitrary: l)
  case Nil
  then show ?case by simp
next
  case (Cons x s)
  show ?case
  proof (cases "x = sep")
    case True
    with Cons show ?thesis by auto
  next
    case False
    obtain h r where hr: "split_on sep s = h # r"
      using split_on_not_Nil [of sep s] by (cases "split_on sep s") auto
    with False Cons.prems have "l = x # h \<or> l \<in> set r" by auto
    then show ?thesis
      using Cons.IH [of h] Cons.IH [of l] hr by auto
  qed
qed

lemma split_on_covers:
  "c \<in> set s \<Longrightarrow> c = sep \<or> (\<exists>l \<in> set (split_on sep s). c \<in> set l)"
proof (induction s)
  case Nil
  then show ?case by simp
next
  case (Cons x s)
  obtain h r where hr: "split_on sep s = h # r"
    using split_on_not_Nil [of sep s] by (cases "split_on sep s") auto
  show ?case
  proof (cases "c = x")
    case True
    then show ?thesis using hr by auto
  next
    case False
    with Cons have "c = sep \<or> (\<exists>l \<in> set (split_on sep s). c \<in> set l)" by simp
    then show ?thesis using hr by (cases "x = sep") auto
  qed
qed

lemma lastNonEmptyLine_blank:
  "\<forall>c \<in> set s. is_space c \<Longrightarrow> lastNonEmptyLine (split_on LF s) = []"
proof -
  assume a: "\<forall>c \<in> set s. is_space c"
  have "\<forall>l \<in> set (split_on LF s). trim l = []"
    using a split_on_line_subset trim_empty_iff by blast
  then have "filter (\<lambda>line. length (trim line) > 0) (split_on LF s) = []"
    by (simp add: filter_empty_conv)
  then show ?thesis by (simp add: lastNonEmptyLine_def)
qed

lemma no_line_all_space:
  assumes "\<forall>line \<in> set (split_on LF output). trim line = []"
  shows "\<forall>c \<in> set output. is_space c"
proof
  fix c assume "c \<in> set output"
  then have "c = LF \<or> (\<exists>l \<in> set (split_on LF output). c \<in> set l)"
    by (rule split_on_covers)
  moreover have "is_space LF" by (simp add: is_space_def LF_def)
  ultimately show "is_space c" using assms trim_empty_iff by blast
qed

lemma wait_lastLine_blank:
  assumes "\<forall>c \<in> set output. is_space c"
  shows "wait_lastLine output = []"
proof -
  have "set (wait_cleanOutput output) \<subseteq> set output"
    unfolding wait_cleanOutput_def
    using set_replace_all_empty [of rx_header] set_replace_all_empty [of rx_cr] by blast
  with assms show ?thesis
    unfolding wait_lastLine_def by (intro lastNonEmptyLine_blank) blast
qed

lemma prompt_lastLine_blank:
  assumes "\<forall>c \<in> set output. is_space c"
  shows "prompt_lastLine output = []"
proof -
  have "set (prompt_cleanOutput output) \<subseteq> set output"
    unfolding prompt_cleanOutput_def
    using set_replace_all_empty [of rx_header] set_replace_all_empty [of rx_cr]
      set_replace_all_empty [of rx_ctrl] by blast
  with assms show ?thesis
    unfolding prompt_lastLine_def by (intro lastNonEmptyLine_blank) blast
qed

lemma tests_on_empty_line:
  "\<not> rx_test rx_question []" "\<not> rx_test rx_colon []" "\<not> rx_test rx_prompt_char []"
  "\<not> hasInputKeyword []"
  by code_simp+

lemma wait_lastLine_Nil: "wait_lastLine [] = []"
  by code_simp

lemma prompt_lastLine_Nil: "prompt_lastLine [] = []"
  by code_simp

lemma isWaitingForInput_signals:
  "isWaitingForInput output =
     (rx_test rx_question (wait_lastLine output) \<or> rx_test rx_colon (wait_lastLine output) \<or>
      hasInputKeyword (wait_lastLine output) \<or> rx_test rx_prompt_char (wait_lastLine output) \<or>
      (hasStalled output \<and> isShortOutput output))"
proof (cases "output = []")
  case True
  then show ?thesis
    by (simp add: isWaitingForInput_def wait_lastLine_Nil tests_on_empty_line hasStalled_def)
next
  case False
  then show ?thesis
    by (auto simp: isWaitingForInput_def Let_def)
qed

lemma extractInputPrompt_line:
  "extractInputPrompt output =
     (if length (prompt_lastLine output) > 50
      then (case match_group rx_prompt_group rx_prompt_rest True (prompt_lastLine output) of
              Some promptMatch \<Rightarrow> trim promptMatch
            | None \<Rightarrow> prompt_lastLine output)
      else prompt_lastLine output)"
  by (cases "output = []") (simp_all add: extractInputPrompt_def prompt_lastLine_Nil Let_def)


lemma isWaitingForInput_hi: "isWaitingForInput (js ''hi'' @ [LF])"
  by code_simp

text \<open>
  Claim C10. A text without a non-empty line (every line of \<open>output.split\<close> trims to the
  empty string; the empty text has one such line) is never classified as waiting for
  input, and its prompt is the empty string.
\<close>

theorem blank_output_not_waiting:
  "\<forall>line \<in> set (split_on LF output). trim line = [] \<Longrightarrow>
   \<not> isWaitingForInput output \<and> extractInputPrompt output = []"
proof -
  assume "\<forall>line \<in> set (split_on LF output). trim line = []"
  then have sp: "\<forall>c \<in> set output. is_space c" by (rule no_line_all_space)
  have w: "wait_lastLine output = []" using sp by (rule wait_lastLine_blank)
  have p: "prompt_lastLine output = []" using sp by (rule prompt_lastLine_blank)
  have "\<not> isWaitingForInput output"
    by (simp add: isWaitingForInput_signals w tests_on_empty_line hasStalled_def)
  moreover have "extractInputPrompt output = []"
    by (simp add: extractInputPrompt_line p)
  ultimately show ?thesis by simp
qed

theorem blank_output_not_waiting_witness:
  "split_on LF blank_output = [[0x20], [TAB, CR], []] \<and>
   \<not> isWaitingForInput blank_output \<and> extractInputPrompt blank_output = []"
proof -
  have l: "split_on LF blank_output = [[0x20], [TAB, CR], []]"
    by code_simp
  have h: "\<forall>line \<in> set (split_on LF blank_output). trim line = []"
    unfolding l by code_simp
  from blank_output_not_waiting [OF h] l show ?thesis by simp
qed

text \<open>
  Claim C4, as the code has it. The last non-empty line is the one each function computes
  from its own cleaned text. \<open>extractInputPrompt\<close> is a function of that line alone.
  \<open>isWaitingForInput\<close> is a function of that line and of one signal of the whole text
  (\<open>hasStalled\<close> together with \<open>isShortOutput\<close>): two texts with the same last non-empty line
  that agree on this signal get the same answer.
\<close>

theorem heuristic_depends_on:
  "(wait_lastLine a = wait_lastLine b \<and>
    (hasStalled a \<and> isShortOutput a) = (hasStalled b \<and> isShortOutput b)
      \<longrightarrow> isWaitingForInput a = isWaitingForInput b) \<and>
   (prompt_lastLine a = prompt_lastLine b \<longrightarrow> extractInputPrompt a = extractInputPrompt b)"
proof (intro conjI impI)
  assume "wait_lastLine a = wait_lastLine b \<and>
    (hasStalled a \<and> isShortOutput a) = (hasStalled b \<and> isShortOutput b)"
  then show "isWaitingForInput a = isWaitingForInput b"
    by (simp add: isWaitingForInput_signals)
next
  assume "prompt_lastLine a = prompt_lastLine b"
  then show "extractInputPrompt a = extractInputPrompt b"
    by (simp only: extractInputPrompt_line)
qed

theorem heuristic_depends_on_witness:
  "wait_lastLine prompt_a = wait_lastLine prompt_b \<and>
   (hasStalled prompt_a \<and> isShortOutput prompt_a) =
     (hasStalled prompt_b \<and> isShortOutput prompt_b) \<and>
   prompt_lastLine prompt_a = prompt_lastLine prompt_b \<and>
   isWaitingForInput prompt_a = isWaitingForInput prompt_b \<and>
   extractInputPrompt prompt_a = extractInputPrompt prompt_b"
proof -
  have 1: "wait_lastLine prompt_a = wait_lastLine prompt_b" by code_simp
  have 2: "(hasStalled prompt_a \<and> isShortOutput prompt_a) =
     (hasStalled prompt_b \<and> isShortOutput prompt_b)" by code_simp
  have 3: "prompt_lastLine prompt_a = prompt_lastLine prompt_b" by code_simp
  from heuristic_depends_on [of prompt_a prompt_b] 1 2 3 show ?thesis by blast
qed

lemma isWaitingForInput_hi_alone: "isWaitingForInput (js ''hi'')"
  by code_simp

lemma isWaitingForInput_long_hi: "\<not> isWaitingForInput long_hi"
  by code_simp

text \<open>
  Claim C4 as stated fails: the text \<open>hi\<close> and the text that has a line of a hundred
  letters before \<open>hi\<close> have the same last non-empty line; the first, a short text, is
  classified as waiting, the second is not.
\<close>

theorem heuristic_not_line_only:
  "wait_lastLine (js ''hi'') = wait_lastLine long_hi \<and>
   isWaitingForInput (js ''hi'') \<and> \<not> isWaitingForInput long_hi"
proof -
  have "wait_lastLine (js ''hi'') = wait_lastLine long_hi"
    by code_simp
  then show ?thesis
    using isWaitingForInput_hi_alone isWaitingForInput_long_hi by simp
qed

text \<open>
  Claim C1, on the code. The program prints \<open>hi\<close> and a newline and ends; every call of the
  request succeeds. The reply carries the output \<open>hi\<close> with its newline, and
  \<open>waitingForInput\<close> is true, with the prompt \<open>hi\<close>: the text is short and does not end
  with two newlines.
\<close>

theorem scenario_A_reply:
  "fst (execute_new docker_up run_hi print_hi (js ''python'') state0) =
     Reply (js ''hi'' @ [LF]) 1 True (js ''hi'')"
  by code_simp

lemma scenario_A_framed:
  "fst (execute_new docker_up run_hi_framed print_hi (js ''python'') state0) =
     Reply (js ''hi'' @ [LF]) 1 True (js ''hi'')"
  by code_simp

section \<open>Teardown and the sweep\<close>

lemma map_of_map_delete: "map_of (map_delete k r) k = None"
  by (induction r) (auto simp: map_delete_def)

lemma map_delete_absent: "map_of r k = None \<Longrightarrow> map_delete k r = r"
  by (induction r) (auto simp: map_delete_def split: if_splits)

lemma activeSessions_removeForced [simp]:
  "activeSessions (removeForced ok c st) = activeSessions st"
  by (simp add: removeForced_def Let_def)

lemma activeSessions_stopAndRemove [simp]:
  "activeSessions (stopAndRemove e c st) = activeSessions st"
  by (simp add: stopAndRemove_def Let_def)

lemma cleanupSession_registry:
  "activeSessions (cleanupSession e k st) = map_delete k (activeSessions st)"
  by (simp add: cleanupSession_def Let_def map_delete_absent split: option.splits)

lemma cleanupSession_absent: "map_of (activeSessions st) k = None \<Longrightarrow> cleanupSession e k st = st"
  by (simp add: cleanupSession_def)

lemma cleanupSession_twice: "cleanupSession e k (cleanupSession e k st) = cleanupSession e k st"
  by (rule cleanupSession_absent) (simp add: cleanupSession_registry map_of_map_delete)

lemma cleanupSession_funpow: "0 < n \<Longrightarrow> (cleanupSession e k ^^ n) st = cleanupSession e k st"
proof (induction n)
  case 0
  then show ?case by simp
next
  case (Suc n)
  show ?case
  proof (cases "n = 0")
    case True
    then show ?thesis by simp
  next
    case False
    with Suc.IH have "(cleanupSession e k ^^ n) st = cleanupSession e k st" by simp
    then show ?thesis by (simp add: cleanupSession_twice)
  qed
qed


lemma calls_stopAndRemove:
  "calls (stopAndRemove e c st) = calls st @ Stop c # removes e c"
  by (simp add: stopAndRemove_def removeForced_def removes_def Let_def)

lemma calls_cleanupSession:
  "map_of (activeSessions st) k = Some s \<Longrightarrow> container s = Some c \<Longrightarrow>
   calls (cleanupSession e k st) = calls st @ ClearTimeout (timeout s) # Stop c # removes e c"
  by (simp add: cleanupSession_def Let_def calls_stopAndRemove)

lemma running_stopAndRemove:
  "running (stopAndRemove e c st) =
     (if stop_ok e c \<or> retry_remove_ok e c then running st - {c} else running st)"
  by (auto simp: stopAndRemove_def removeForced_def Let_def)


lemma running_cleanupSession: "running (cleanupSession e k st) \<subseteq> running st"
  by (auto simp: cleanupSession_def Let_def running_stopAndRemove split: option.splits if_splits)

lemma calls_cleanupSession_prefix: "\<exists>new. calls (cleanupSession e k st) = calls st @ new"
  by (auto simp: cleanupSession_def Let_def calls_stopAndRemove split: option.splits)

lemma activeSessions_sweep_body:
  "activeSessions (sweep_body e now st (k, s)) =
     (if now - createdAt s > lifetime then map_delete k (activeSessions st) else activeSessions st)"
  by (simp add: sweep_body_def cleanupSession_registry)

lemma sweep_body_mono:
  "running (sweep_body e now st x) \<subseteq> running st \<and>
   (\<exists>new. calls (sweep_body e now st x) = calls st @ new)"
  using running_cleanupSession calls_cleanupSession_prefix
  by (cases x) (simp add: sweep_body_def)

lemma sweep_fold_mono:
  "running (foldl (sweep_body e now) st xs) \<subseteq> running st \<and>
   (\<exists>new. calls (foldl (sweep_body e now) st xs) = calls st @ new)"
proof (induction xs arbitrary: st)
  case Nil
  then show ?case by simp
next
  case (Cons x xs)
  from Cons.IH [of "sweep_body e now st x"]
  obtain new1 where 1: "running (foldl (sweep_body e now) (sweep_body e now st x) xs)
      \<subseteq> running (sweep_body e now st x)"
    and 2: "calls (foldl (sweep_body e now) (sweep_body e now st x) xs) =
      calls (sweep_body e now st x) @ new1"
    by blast
  from sweep_body_mono [of e now st x]
  obtain new0 where 3: "running (sweep_body e now st x) \<subseteq> running st"
    and 4: "calls (sweep_body e now st x) = calls st @ new0"
    by blast
  from 1 3 have "running (foldl (sweep_body e now) st (x # xs)) \<subseteq> running st"
    by auto
  moreover from 2 4 have "calls (foldl (sweep_body e now) st (x # xs)) = calls st @ (new0 @ new1)"
    by simp
  ultimately show ?case by blast
qed

lemma sweep_fold_remaining:
  "(k, s) \<in> set (activeSessions (foldl (sweep_body e now) st xs)) \<Longrightarrow>
   (k, s) \<in> set (activeSessions st) \<and>
   (\<forall>s'. (k, s') \<in> set xs \<longrightarrow> \<not> now - createdAt s' > lifetime)"
proof (induction xs arbitrary: st)
  case Nil
  then show ?case by simp
next
  case (Cons x xs)
  obtain k0 s0 where x: "x = (k0, s0)" by (cases x)
  from Cons.prems have "(k, s) \<in> set (activeSessions (foldl (sweep_body e now)
      (sweep_body e now st x) xs))" by simp
  from Cons.IH [OF this]
  have 1: "(k, s) \<in> set (activeSessions (sweep_body e now st (k0, s0)))"
    and 2: "\<forall>s'. (k, s') \<in> set xs \<longrightarrow> \<not> now - createdAt s' > lifetime"
    by (simp_all add: x)
  from 1 have 3: "(k, s) \<in> set (activeSessions st)"
    and 4: "now - createdAt s0 > lifetime \<Longrightarrow> k \<noteq> k0"
    by (auto simp: activeSessions_sweep_body map_delete_def split: if_splits)
  from 2 3 4 show ?case by (auto simp: x)
qed

lemma distinct_map_delete:
  "distinct (map fst r) \<Longrightarrow> distinct (map fst (map_delete k r))"
  by (simp add: map_delete_def distinct_map_filter)

lemma sweep_fold_teardown:
  assumes "distinct (map fst xs)" and "set xs \<subseteq> set (activeSessions st)"
    and "distinct (map fst (activeSessions st))"
    and "(k, s) \<in> set xs" and "now - createdAt s > lifetime" and "container s = Some c"
  shows "\<exists>new. calls (foldl (sweep_body e now) st xs) = calls st @ new \<and> Stop c \<in> set new \<and>
    (stop_ok e c \<or> retry_remove_ok e c \<longrightarrow> c \<notin> running (foldl (sweep_body e now) st xs))"
  using assms
proof (induction xs arbitrary: st)
  case Nil
  then show ?case by simp
next
  case (Cons x xs)
  obtain k0 s0 where x: "x = (k0, s0)" by (cases x)
  let ?st1 = "sweep_body e now st x"
  let ?F = "foldl (sweep_body e now) ?st1 xs"
  from sweep_fold_mono [of e now ?st1 xs]
  obtain new1 where run1: "running ?F \<subseteq> running ?st1" and calls1: "calls ?F = calls ?st1 @ new1"
    by blast
  show ?case
  proof (cases "(k, s) = x")
    case True
    then have kx: "k0 = k" "s0 = s" using x by simp_all
    have "map_of (activeSessions st) k = Some s"
      using Cons.prems(2,3) True by (intro map_of_is_SomeI) auto
    then have c: "calls ?st1 = calls st @ ClearTimeout (timeout s) # Stop c # removes e c"
      and r: "stop_ok e c \<or> retry_remove_ok e c \<longrightarrow> c \<notin> running ?st1"
      using Cons.prems(5,6)
      by (auto simp: x kx sweep_body_def cleanupSession_def Let_def calls_stopAndRemove
          running_stopAndRemove)
    from c r run1 calls1 show ?thesis by auto
  next
    case False
    then have mem: "(k, s) \<in> set xs" using Cons.prems(4) by simp
    have d: "distinct (map fst xs)" using Cons.prems(1) by simp
    have k0: "\<forall>(k', s') \<in> set xs. k' \<noteq> k0"
      using Cons.prems(1) x by (auto simp: image_iff)
    have sub: "set xs \<subseteq> set (activeSessions ?st1)"
      using Cons.prems(2) k0
      by (auto simp: x activeSessions_sweep_body map_delete_def)
    have d1: "distinct (map fst (activeSessions ?st1))"
      using Cons.prems(3) by (simp add: x activeSessions_sweep_body distinct_map_delete)
    from Cons.IH [OF d sub d1 mem Cons.prems(5,6)]
    obtain new where n: "calls ?F = calls ?st1 @ new" "Stop c \<in> set new"
      "stop_ok e c \<or> retry_remove_ok e c \<longrightarrow> c \<notin> running ?F"
      by blast
    from sweep_body_mono [of e now st x]
    obtain new0 where "calls ?st1 = calls st @ new0" by blast
    with n show ?thesis by auto
  qed
qed


text \<open>
  Claim C8, as the code has it. Any number n > 0 of invocations of \<open>cleanupSession\<close> for
  one id leaves the state one invocation leaves: a further invocation finds no entry and
  changes nothing. The entry is deleted once. For a session with a container the
  invocations together issue one \<open>stop\<close>; they issue one forced remove, or two when the
  daemon accepts the stop and rejects the remove behind it, which is then tried again.
\<close>

theorem cleanupSession_idempotent:
  "0 < n \<Longrightarrow>
   (cleanupSession e k ^^ n) st = cleanupSession e k st \<and>
   cleanupSession e k ((cleanupSession e k ^^ n) st) = (cleanupSession e k ^^ n) st \<and>
   activeSessions ((cleanupSession e k ^^ n) st) = map_delete k (activeSessions st) \<and>
   map_of (activeSessions ((cleanupSession e k ^^ n) st)) k = None \<and>
   (\<forall>s c. map_of (activeSessions st) k = Some s \<and> container s = Some c \<longrightarrow>
      count_list (drop (length (calls st)) (calls ((cleanupSession e k ^^ n) st))) (Stop c) = 1 \<and>
      count_list (drop (length (calls st)) (calls ((cleanupSession e k ^^ n) st))) (Remove c) =
        (if stop_ok e c \<and> \<not> remove_ok e c then 2 else 1))"
proof -
  assume "0 < n"
  then have n: "(cleanupSession e k ^^ n) st = cleanupSession e k st"
    by (rule cleanupSession_funpow)
  have c: "count_list (drop (length (calls st)) (calls (cleanupSession e k st))) (Stop c) = 1 \<and>
      count_list (drop (length (calls st)) (calls (cleanupSession e k st))) (Remove c) =
        (if stop_ok e c \<and> \<not> remove_ok e c then 2 else 1)"
    if "map_of (activeSessions st) k = Some s" and "container s = Some c" for s c
    using calls_cleanupSession [OF that, of e] by (simp add: removes_def)
  show ?thesis
    unfolding n using c
    by (simp add: cleanupSession_twice cleanupSession_registry map_of_map_delete)
qed

theorem cleanupSession_idempotent_witness:
  "(0::nat) < 3 \<and> map_of (activeSessions state7) 1 = Some session7 \<and>
   container session7 = Some 7 \<and>
   (cleanupSession docker_up 1 ^^ 3) state7 = cleanupSession docker_up 1 state7 \<and>
   activeSessions ((cleanupSession docker_up 1 ^^ 3) state7) = [] \<and>
   count_list (calls ((cleanupSession docker_up 1 ^^ 3) state7)) (Stop 7) = 1 \<and>
   count_list (calls ((cleanupSession docker_up 1 ^^ 3) state7)) (Remove 7) = 1 \<and>
   count_list (calls ((cleanupSession remove_rejected 1 ^^ 3) state7)) (Stop 7) = 1 \<and>
   count_list (calls ((cleanupSession remove_rejected 1 ^^ 3) state7)) (Remove 7) = 2"
proof -
  have m: "map_of (activeSessions state7) 1 = Some session7" by (simp add: state7_def)
  have c: "container session7 = Some 7" by (simp add: session7_def)
  have z: "calls state7 = []" "activeSessions state7 = [(1, session7)]"
    by (simp_all add: state7_def)
  have pos: "(0::nat) < 3" by simp
  note t = cleanupSession_idempotent [OF pos, of docker_up 1 state7]
  note u = cleanupSession_idempotent [OF pos, of remove_rejected 1 state7]
  from t have a: "(cleanupSession docker_up 1 ^^ 3) state7 = cleanupSession docker_up 1 state7"
    by (rule conjunct1)
  from t have "activeSessions ((cleanupSession docker_up 1 ^^ 3) state7) =
      map_delete 1 (activeSessions state7)"
    by blast
  then have b: "activeSessions ((cleanupSession docker_up 1 ^^ 3) state7) = []"
    by (simp add: z map_delete_def)
  from t m c have "count_list (drop (length (calls state7))
      (calls ((cleanupSession docker_up 1 ^^ 3) state7))) (Stop 7) = 1"
    by blast
  then have n: "count_list (calls ((cleanupSession docker_up 1 ^^ 3) state7)) (Stop 7) = 1"
    by (simp add: z)
  from t m c have "count_list (drop (length (calls state7))
      (calls ((cleanupSession docker_up 1 ^^ 3) state7))) (Remove 7) =
      (if stop_ok docker_up 7 \<and> \<not> remove_ok docker_up 7 then 2 else 1)"
    by blast
  then have r: "count_list (calls ((cleanupSession docker_up 1 ^^ 3) state7)) (Remove 7) = 1"
    by (simp add: z docker_up_def)
  from u m c have "count_list (drop (length (calls state7))
      (calls ((cleanupSession remove_rejected 1 ^^ 3) state7))) (Stop 7) = 1"
    by blast
  then have n': "count_list (calls ((cleanupSession remove_rejected 1 ^^ 3) state7)) (Stop 7) = 1"
    by (simp add: z)
  from u m c have "count_list (drop (length (calls state7))
      (calls ((cleanupSession remove_rejected 1 ^^ 3) state7))) (Remove 7) =
      (if stop_ok remove_rejected 7 \<and> \<not> remove_ok remove_rejected 7 then 2 else 1)"
    by blast
  then have r': "count_list (calls ((cleanupSession remove_rejected 1 ^^ 3) state7)) (Remove 7) = 2"
    by (simp add: z remove_rejected_def)
  from pos m c a b n r n' r' show ?thesis by blast
qed

text \<open>
  Claim C8 as stated fails: when the daemon accepts the stop and rejects the remove
  behind it, two invocations for the id of a live session issue one stop and two removes.
\<close>

theorem cleanupSession_two_removes:
  "calls ((cleanupSession remove_rejected 1 ^^ 2) state7) =
     [ClearTimeout 1, Stop 7, Remove 7, Remove 7] \<and>
   count_list (calls ((cleanupSession remove_rejected 1 ^^ 2) state7)) (Remove 7) = 2"
proof -
  have "(cleanupSession remove_rejected 1 ^^ 2) state7 = cleanupSession remove_rejected 1 state7"
    by (rule cleanupSession_funpow) simp
  moreover have "calls (cleanupSession remove_rejected 1 state7) =
      [ClearTimeout 1, Stop 7, Remove 7, Remove 7]"
    by (simp add: state7_def session7_def remove_rejected_def cleanupSession_def
        stopAndRemove_def removeForced_def map_delete_def)
  ultimately show ?thesis by simp
qed

lemma sweep_fold_keeps:
  "(k, s) \<in> set (activeSessions st) \<Longrightarrow>
   (\<forall>s'. (k, s') \<in> set xs \<longrightarrow> \<not> now - createdAt s' > lifetime) \<Longrightarrow>
   (k, s) \<in> set (activeSessions (foldl (sweep_body e now) st xs))"
proof (induction xs arbitrary: st)
  case Nil
  then show ?case by simp
next
  case (Cons x xs)
  obtain k0 s0 where x: "x = (k0, s0)" by (cases x)
  have "(k, s) \<in> set (activeSessions (sweep_body e now st x))"
    using Cons.prems by (auto simp: x activeSessions_sweep_body map_delete_def)
  moreover have "\<forall>s'. (k, s') \<in> set xs \<longrightarrow> \<not> now - createdAt s' > lifetime"
    using Cons.prems(2) by simp
  ultimately show ?case
    using Cons.IH by simp
qed

lemma sweep_keeps_young:
  assumes "distinct (map fst (activeSessions st))" and "(k, s) \<in> set (activeSessions st)"
    and "now - createdAt s \<le> lifetime"
  shows "(k, s) \<in> set (activeSessions (sweep e now st))"
proof -
  have "\<forall>s'. (k, s') \<in> set (activeSessions st) \<longrightarrow> \<not> now - createdAt s' > lifetime"
  proof (intro allI impI)
    fix s' assume "(k, s') \<in> set (activeSessions st)"
    with assms(1) have "s' = s" using assms(2) by (rule eq_key_imp_eq_value)
    with assms(3) show "\<not> now - createdAt s' > lifetime" by simp
  qed
  with assms(2) show ?thesis
    unfolding sweep_def by (rule sweep_fold_keeps)
qed

text \<open>
  Claim C9, as the code has it. The registry has one entry for an id. After the sweep no
  session older than the lifetime of five minutes is left in it, whatever the session did
  in between: the age is measured from \<open>createdAt\<close> alone. For each such session the sweep
  has called \<open>stop\<close> on its container. The container is out of the running ones when that
  stop, or the forced remove tried after a failed stop, succeeds.
\<close>

theorem sweep_removes_expired:
  assumes "distinct (map fst (activeSessions st))"
  shows "(\<forall>(k, s) \<in> set (activeSessions (sweep e now st)). now - createdAt s \<le> lifetime) \<and>
    (\<forall>(k, s) \<in> set (activeSessions st). now - createdAt s > lifetime \<longrightarrow>
       map_of (activeSessions (sweep e now st)) k = None \<and>
       (\<forall>c. container s = Some c \<longrightarrow>
          Stop c \<in> set (drop (length (calls st)) (calls (sweep e now st))) \<and>
          (stop_ok e c \<or> retry_remove_ok e c \<longrightarrow> c \<notin> running (sweep e now st))))"
proof (intro conjI ballI)
  fix x assume x: "x \<in> set (activeSessions (sweep e now st))"
  obtain k s where ks: "x = (k, s)" by (cases x)
  from x sweep_fold_remaining [of k s e now st "activeSessions st"]
  have "\<not> now - createdAt s > lifetime" by (auto simp: sweep_def ks)
  then show "case x of (k, s) \<Rightarrow> now - createdAt s \<le> lifetime" by (simp add: ks)
next
  fix x assume x: "x \<in> set (activeSessions st)"
  obtain k s where ks: "x = (k, s)" by (cases x)
  have "now - createdAt s > lifetime \<longrightarrow>
       map_of (activeSessions (sweep e now st)) k = None \<and>
       (\<forall>c. container s = Some c \<longrightarrow>
          Stop c \<in> set (drop (length (calls st)) (calls (sweep e now st))) \<and>
          (stop_ok e c \<or> retry_remove_ok e c \<longrightarrow> c \<notin> running (sweep e now st)))"
  proof (intro impI conjI allI)
    assume old: "now - createdAt s > lifetime"
    show "map_of (activeSessions (sweep e now st)) k = None"
    proof (rule ccontr)
      assume "map_of (activeSessions (sweep e now st)) k \<noteq> None"
      then obtain s' where "(k, s') \<in> set (activeSessions (sweep e now st))"
        by (auto dest: map_of_SomeD)
      from sweep_fold_remaining [OF this [unfolded sweep_def]] x old
      show False by (auto simp: ks)
    qed
  next
    fix c assume old: "now - createdAt s > lifetime" and c: "container s = Some c"
    from sweep_fold_teardown [OF assms subset_refl assms x [unfolded ks] old c, of e]
    obtain new where n: "calls (sweep e now st) = calls st @ new" "Stop c \<in> set new"
      "stop_ok e c \<or> retry_remove_ok e c \<longrightarrow> c \<notin> running (sweep e now st)"
      by (auto simp: sweep_def)
    from n show "Stop c \<in> set (drop (length (calls st)) (calls (sweep e now st)))" by simp
    from n show "stop_ok e c \<or> retry_remove_ok e c \<Longrightarrow> c \<notin> running (sweep e now st)"
      by simp
  qed
  then show "case x of (k, s) \<Rightarrow> now - createdAt s > lifetime \<longrightarrow>
       map_of (activeSessions (sweep e now st)) k = None \<and>
       (\<forall>c. container s = Some c \<longrightarrow>
          Stop c \<in> set (drop (length (calls st)) (calls (sweep e now st))) \<and>
          (stop_ok e c \<or> retry_remove_ok e c \<longrightarrow> c \<notin> running (sweep e now st)))"
    by (simp add: ks)
qed

theorem sweep_removes_expired_witness:
  "distinct (map fst (activeSessions state7)) \<and>
   300001 - createdAt session7 > lifetime \<and>
   map_of (activeSessions (sweep docker_up 300001 state7)) 1 = None \<and>
   Stop 7 \<in> set (calls (sweep docker_up 300001 state7)) \<and>
   7 \<notin> running (sweep docker_up 300001 state7)"
proof -
  have d: "distinct (map fst (activeSessions state7))" by (simp add: state7_def)
  have m: "(1, session7) \<in> set (activeSessions state7)" by (simp add: state7_def)
  have old: "300001 - createdAt session7 > lifetime"
    by (simp add: session7_def lifetime_def)
  have c: "container session7 = Some 7" by (simp add: session7_def)
  have ok: "stop_ok docker_up 7" by (simp add: docker_up_def)
  have z: "calls state7 = []" by (simp add: state7_def)
  from sweep_removes_expired [OF d, of docker_up 300001] m
  have "300001 - createdAt session7 > lifetime \<longrightarrow>
       map_of (activeSessions (sweep docker_up 300001 state7)) 1 = None \<and>
       (\<forall>c. container session7 = Some c \<longrightarrow>
          Stop c \<in> set (drop (length (calls state7)) (calls (sweep docker_up 300001 state7))) \<and>
          (stop_ok docker_up c \<or> retry_remove_ok docker_up c \<longrightarrow>
             c \<notin> running (sweep docker_up 300001 state7)))"
    by fastforce
  with old c ok z d show ?thesis by simp
qed

text \<open>
  Claim C9 as stated fails: when the daemon rejects the stop and the forced remove, the
  sweep deletes the entry of the old session and its container still runs.
\<close>

theorem sweep_leaves_container_running:
  "activeSessions (sweep docker_down 300001 state7) = [] \<and>
   calls (sweep docker_down 300001 state7) = [ClearTimeout 1, Stop 7, Remove 7] \<and>
   7 \<in> running (sweep docker_down 300001 state7)"
  by (simp add: sweep_def sweep_body_def state7_def session7_def docker_down_def
      cleanupSession_def stopAndRemove_def removeForced_def lifetime_def map_delete_def)

section \<open>A failed start of a run\<close>

lemma create_failure_leaves_nothing:
  assumes "code \<noteq> []" and "language = js ''python''" and "write_ok r"
    and "created r = Fails m" and "map_of (activeSessions st) (newSessionId r) = None"
  shows "execute_new e r code language st =
    (ErrorReply 200 (if m = [] then js ''An error occurred during execution'' else m),
     st\<lparr>calls := calls st @ [WriteFile (fileId r), CreateContainer, Unlink (fileId r)]\<rparr>)"
  using assms by (simp add: execute_new_def failRun_def Let_def cleanupSession_absent)

lemma attach_failure_calls:
  assumes "code \<noteq> []" and "language = js ''python''" and "write_ok r"
    and "created r = Returns c" and "started r = Returns ()" and "attached r = Fails m"
    and "map_of (activeSessions st) (newSessionId r) = None"
  shows "execute_new e r code language st =
    (ErrorReply 200 (if m = [] then js ''An error occurred during execution'' else m),
     st\<lparr>calls := calls st @ [WriteFile (fileId r), CreateContainer, Start c, Attach c,
            Unlink (fileId r)],
         existing := insert c (existing st), running := insert c (running st)\<rparr>)"
  using assms by (simp add: execute_new_def failRun_def Let_def cleanupSession_absent)

lemma create_failure_scenario:
  "execute_new docker_up run_create_fails print_hi (js ''python'') state0 =
     (ErrorReply 200 (js ''no such image''),
      state0\<lparr>calls := [WriteFile 1, CreateContainer, Unlink 1]\<rparr>)"
proof -
  have "print_hi \<noteq> []" by (simp add: print_hi_def js_def)
  moreover have "js ''no such image'' \<noteq> []" by (simp add: js_def)
  ultimately show ?thesis
    using create_failure_leaves_nothing [of print_hi "js ''python''" run_create_fails
        "js ''no such image''" state0 docker_up]
    by (simp add: run_create_fails_def run_hi_def state0_def)
qed

text \<open>
  Claim C3, on the code. The container 7 is created and started and the attach is
  rejected: the reply is the error, the handler has called neither \<open>stop\<close> nor \<open>remove\<close>,
  and the container is still there and runs. The session is stored in the registry only
  behind the attach, so \<open>cleanupSession\<close> finds no entry for the new id.
\<close>

theorem attach_failure_leaves_container:
  "fst (execute_new docker_up run_attach_fails print_hi (js ''python'') state0) =
     ErrorReply 200 (js ''attach failed'') \<and>
   calls (snd (execute_new docker_up run_attach_fails print_hi (js ''python'') state0)) =
     [WriteFile 1, CreateContainer, Start 7, Attach 7, Unlink 1] \<and>
   7 \<in> existing (snd (execute_new docker_up run_attach_fails print_hi (js ''python'') state0)) \<and>
   7 \<in> running (snd (execute_new docker_up run_attach_fails print_hi (js ''python'') state0))"
proof -
  have "print_hi \<noteq> []" by (simp add: print_hi_def js_def)
  moreover have "js ''attach failed'' \<noteq> []" by (simp add: js_def)
  ultimately show ?thesis
    using attach_failure_calls [of print_hi "js ''python''" run_attach_fails 7
        "js ''attach failed''" state0 docker_up]
    by (simp add: run_attach_fails_def run_hi_def state0_def)
qed

section \<open>The history of a session\<close>

lemma emitData_alone:
  "stdoutChunks (fst (emitData chunk type (s, cur, None))) =
     stdoutChunks s @ (if type = Stderr then [] else [cleanChunk chunk])"
  by (cases type) (simp_all add: emitData_def sessionDataHandler_def)

lemma emitData_subscribed:
  "subscribed w \<Longrightarrow> type \<noteq> Stderr \<Longrightarrow>
   stdoutChunks (fst (emitData chunk type (s, cur, Some w))) =
     stdoutChunks s @ [cleanChunk chunk, cleanChunk chunk]"
  by (cases type) (simp_all add: emitData_def sessionDataHandler_def dataHandler_def Let_def)

lemma history_without_waiter:
  "stdoutChunks (fst (foldl (\<lambda>acc (chunk, type). emitData chunk type acc) (s, cur, None) evs)) =
     stdoutChunks s @ map (\<lambda>(chunk, type). cleanChunk chunk) (filter (\<lambda>(chunk, type). type \<noteq> Stderr) evs)"
proof (induction evs arbitrary: s cur)
  case Nil
  then show ?case by simp
next
  case (Cons ev evs)
  obtain chunk type where ev: "ev = (chunk, type)" by (cases ev)
  obtain s1 cur1 where step: "emitData chunk type (s, cur, None) = (s1, cur1, None)"
    by (cases type) (simp_all add: emitData_def sessionDataHandler_def)
  have "stdoutChunks s1 = stdoutChunks s @ (if type = Stderr then [] else [cleanChunk chunk])"
    using emitData_alone [of chunk type s cur] step by simp
  then show ?case
    using Cons.IH [of s1 cur1] by (simp add: ev step)
qed

lemma cleanChunk_a: "cleanChunk (js ''a'') = js ''a''"
  by code_simp

text \<open>
  Claim C2, on the code. One chunk \<open>a\<close> arrives on stdout while \<open>waitForOutput\<close> is
  subscribed: the handler of the session and the handler of \<open>waitForOutput\<close> both append
  it, and the history holds the chunk twice.
\<close>

theorem chunk_stored_twice:
  "stdoutChunks (fst (emitData (js ''a'') Stdout (session7, [], Some startWaiter))) =
     [js ''a'', js ''a'']"
proof -
  have "subscribed startWaiter" by (simp add: startWaiter_def)
  then show ?thesis
    using emitData_subscribed [of startWaiter Stdout "js ''a''" session7 "[]"]
    by (simp add: cleanChunk_a session7_def)
qed

section \<open>The timeout without output\<close>

lemma msg_exited_137: "msg_exited 137 = js ''Program exited with code 137''"
  by code_simp

text \<open>
  Claim C5, as the code has it. When the timer of \<open>timeoutMs\<close> fires on a promise not yet
  settled and the history of the session is empty, the answer of the inspection decides:
  exit code 0 resolves with the message of a run without output, another exit code
  rejects with the message that carries the code, a running container resolves with the
  message of a run still under way. When the history is not empty, the promise resolves
  with the history, whatever the inspection would say.
\<close>

theorem onTimeout_outcome:
  "settled w = None \<Longrightarrow>
   (concat (stdoutChunks s) = [] \<longrightarrow>
      settled (onTimeout (Info False 0) s w) = Some (Resolved msg_no_output) \<and>
      (exitCode \<noteq> 0 \<longrightarrow>
         settled (onTimeout (Info False exitCode) s w) = Some (Rejected (msg_exited exitCode))) \<and>
      settled (onTimeout (Info True exitCode) s w) = Some (Resolved msg_running)) \<and>
   (concat (stdoutChunks s) \<noteq> [] \<longrightarrow>
      settled (onTimeout insp s w) = Some (Resolved (concat (stdoutChunks s))))"
  by (simp add: onTimeout_def settle_def cleanup_def Let_def)

theorem onTimeout_outcome_witness:
  "settled startWaiter = None \<and> concat (stdoutChunks session7) = [] \<and>
   settled (onTimeout (Info False 0) session7 startWaiter) = Some (Resolved msg_no_output) \<and>
   settled (onTimeout (Info False 137) session7 startWaiter) =
     Some (Rejected (js ''Program exited with code 137'')) \<and>
   settled (onTimeout (Info True 137) session7 startWaiter) = Some (Resolved msg_running) \<and>
   settled (onTimeout InspectRejects session_ok startWaiter) =
     Some (Resolved (js ''ok'' @ [LF, LF]))"
proof -
  have w: "settled startWaiter = None" by (simp add: startWaiter_def)
  have e: "concat (stdoutChunks session7) = []" by (simp add: session7_def)
  have p: "concat (stdoutChunks session_ok) = js ''ok'' @ [LF, LF]"
    by (simp add: session_ok_def)
  have n: "js ''ok'' @ [LF, LF] \<noteq> []" by simp
  from onTimeout_outcome [OF w, of session7 137] e
  have 1: "settled (onTimeout (Info False 0) session7 startWaiter) = Some (Resolved msg_no_output)"
    and 2: "settled (onTimeout (Info False 137) session7 startWaiter) =
      Some (Rejected (msg_exited 137))"
    and 3: "settled (onTimeout (Info True 137) session7 startWaiter) = Some (Resolved msg_running)"
    by simp_all
  from onTimeout_outcome [OF w, of session_ok 0 InspectRejects] p n
  have 4: "settled (onTimeout InspectRejects session_ok startWaiter) =
      Some (Resolved (js ''ok'' @ [LF, LF]))"
    by simp
  from w e 1 2 3 4 show ?thesis by (simp add: msg_exited_137)
qed

lemma history_ok_not_waiting: "\<not> isWaitingForInput (js ''ok'' @ [LF, LF])"
  by code_simp

text \<open>
  Claim C5 as stated fails. The history holds the output of an earlier turn, no byte
  arrives during this wait, the check after five seconds finds the container running and
  leaves the promise open, and when the timer of \<open>timeoutMs\<close> fires the container has
  exited with code 1: the promise resolves with the history and is not rejected.
\<close>

theorem onTimeout_resolves_with_history:
  "dataReceived (onCheck (Info True 0) session_ok startWaiter) = False \<and>
   settled (onCheck (Info True 0) session_ok startWaiter) = None \<and>
   settled (onTimeout (Info False 1) session_ok (onCheck (Info True 0) session_ok startWaiter)) =
     Some (Resolved (js ''ok'' @ [LF, LF]))"
proof -
  have "onCheck (Info True 0) session_ok startWaiter = startWaiter"
    using history_ok_not_waiting
    by (simp add: onCheck_def startWaiter_def session_ok_def)
  then show ?thesis
    by (simp add: onTimeout_def settle_def cleanup_def startWaiter_def session_ok_def)
qed

end
